theory Spec2Isabelle
  imports Main "HOL-Library.Char_ord" "HOL-Library.List_Lexorder" "HOL-Library.AList"
    "HOL-Library.Multiset"
begin

text \<open>
  A shallow embedding of the ABI generation scripts (\<^verbatim>\<open>packages/js/scripts/lib\<close>):
  the definitions of every module come first, the lemmas and theorems follow.
  JavaScript strings are modelled as \<^typ>\<open>string\<close>; a thrown \<^verbatim>\<open>Error\<close> is a
  value of type \<open>error\<close> carrying its message and functions that can throw
  return a sum with the error on the left.
\<close>

datatype error = Error string

section \<open>Naming: \<^verbatim>\<open>splitWords\<close>, \<^verbatim>\<open>toCamelCase\<close>, \<^verbatim>\<open>toPascalCase\<close>, \<^verbatim>\<open>toKebabCase\<close>\<close>

text \<open>The character classes of the regular expressions in \<^verbatim>\<open>splitWords\<close> are ASCII ranges.\<close>

definition is_upper :: "char \<Rightarrow> bool" where
  "is_upper c \<longleftrightarrow> CHR ''A'' \<le> c \<and> c \<le> CHR ''Z''"

definition is_lower :: "char \<Rightarrow> bool" where
  "is_lower c \<longleftrightarrow> CHR ''a'' \<le> c \<and> c \<le> CHR ''z''"

definition is_digit :: "char \<Rightarrow> bool" where
  "is_digit c \<longleftrightarrow> CHR ''0'' \<le> c \<and> c \<le> CHR ''9''"

definition is_alnum :: "char \<Rightarrow> bool" where
  "is_alnum c \<longleftrightarrow> is_lower c \<or> is_upper c \<or> is_digit c"

text \<open>
  \<^verbatim>\<open>.replace(/([A-Z])([A-Z][a-z])/g, "$1 $2")\<close>: the global replace scans from the left
  and, after a match, resumes behind the three characters the match consumed.
\<close>

fun replaceAcronymBoundary :: "string \<Rightarrow> string" where
  "replaceAcronymBoundary (a # b # c # rest) =
     (if is_upper a \<and> is_upper b \<and> is_lower c
      then a # CHR '' '' # b # c # replaceAcronymBoundary rest
      else a # replaceAcronymBoundary (b # c # rest))"
| "replaceAcronymBoundary s = s"

text \<open>
  \<^verbatim>\<open>.replace(/([a-z0-9])([A-Z])/g, "$1 $2")\<close>: resumes behind the two characters of a match.
\<close>

fun replaceCamelBoundary :: "string \<Rightarrow> string" where
  "replaceCamelBoundary (a # b # rest) =
     (if (is_lower a \<or> is_digit a) \<and> is_upper b
      then a # CHR '' '' # b # replaceCamelBoundary rest
      else a # replaceCamelBoundary (b # rest))"
| "replaceCamelBoundary s = s"

text \<open>
  \<^verbatim>\<open>.split(/[^a-zA-Z0-9]+/)\<close>: the pieces between maximal runs of separator characters,
  empty pieces at either end included (\<^verbatim>\<open>"_x"\<close> splits to \<^verbatim>\<open>["", "x"]\<close> and the
  empty string to \<^verbatim>\<open>[""]\<close>).
\<close>

fun splitRuns :: "(char \<Rightarrow> bool) \<Rightarrow> string \<Rightarrow> string list" where
  "splitRuns sep [] = [[]]"
| "splitRuns sep (c # cs) =
     (if sep c
      then (if cs \<noteq> [] \<and> sep (hd cs) then splitRuns sep cs else [] # splitRuns sep cs)
      else (case splitRuns sep cs of t # ts \<Rightarrow> (c # t) # ts | [] \<Rightarrow> [[c]]))"

text \<open>
  \<^verbatim>\<open>toLowerCase\<close> and \<^verbatim>\<open>toUpperCase\<close> on one character. They are only applied to the
  tokens of \<^verbatim>\<open>splitWords\<close>, which hold ASCII letters and digits, where the Unicode case
  mappings are the ones below.
\<close>

definition toLowerChar :: "char \<Rightarrow> char" where
  "toLowerChar c = (if is_upper c then char_of (of_char c + (32::nat)) else c)"

definition toUpperChar :: "char \<Rightarrow> char" where
  "toUpperChar c = (if is_lower c then char_of (of_char c - (32::nat)) else c)"

definition splitWords :: "string \<Rightarrow> string list" where
  "splitWords input =
     map (map toLowerChar)
       (filter (\<lambda>part. part \<noteq> [])
         (splitRuns (\<lambda>c. \<not> is_alnum c)
           (replaceCamelBoundary (replaceAcronymBoundary input))))"

text \<open>
  \<^verbatim>\<open>p[0].toUpperCase() + p.slice(1)\<close>. The source would throw on an empty token; the
  tokens of \<^verbatim>\<open>splitWords\<close> are never empty (lemma \<open>splitWords_nonempty_tokens\<close>).
\<close>

fun capitalize :: "string \<Rightarrow> string" where
  "capitalize [] = []"
| "capitalize (c # cs) = toUpperChar c # cs"

text \<open>\<^verbatim>\<open>Array.prototype.join\<close> on strings.\<close>

fun join :: "string \<Rightarrow> string list \<Rightarrow> string" where
  "join sep [] = []"
| "join sep [x] = x"
| "join sep (x # y # ys) = x @ sep @ join sep (y # ys)"

definition toCamelCase :: "string \<Rightarrow> string" where
  "toCamelCase input =
     (case splitWords input of
        [] \<Rightarrow> ''abi''
      | p # ps \<Rightarrow> join [] (p # map capitalize ps))"

definition toPascalCase :: "string \<Rightarrow> string" where
  "toPascalCase input =
     (case splitWords input of
        [] \<Rightarrow> ''Contract''
      | p # ps \<Rightarrow> join [] (map capitalize (p # ps)))"

definition toKebabCase :: "string \<Rightarrow> string" where
  "toKebabCase input = join ''-'' (splitWords input)"

text \<open>
  The segmentation as the specification words it: a boundary (a space) is put behind
  every character at which the given look-ahead holds, at all positions at once; then the
  text is split on runs of non-alphanumeric characters, every token is lowercased and the
  empty tokens are dropped.
\<close>

fun insertBoundaries :: "(string \<Rightarrow> bool) \<Rightarrow> string \<Rightarrow> string" where
  "insertBoundaries P [] = []"
| "insertBoundaries P (c # cs) =
     (if P (c # cs) then c # CHR '' '' # insertBoundaries P cs else c # insertBoundaries P cs)"

fun acronymBoundary :: "string \<Rightarrow> bool" where
  "acronymBoundary (a # b # c # rest) \<longleftrightarrow> is_upper a \<and> is_upper b \<and> is_lower c"
| "acronymBoundary s \<longleftrightarrow> False"

fun camelBoundary :: "string \<Rightarrow> bool" where
  "camelBoundary (a # b # rest) \<longleftrightarrow> (is_lower a \<or> is_digit a) \<and> is_upper b"
| "camelBoundary s \<longleftrightarrow> False"

definition splitWords_spec :: "string \<Rightarrow> string list" where
  "splitWords_spec input =
     filter (\<lambda>t. t \<noteq> [])
       (map (map toLowerChar)
         (splitRuns (\<lambda>c. \<not> is_alnum c)
           (insertBoundaries camelBoundary (insertBoundaries acronymBoundary input))))"

section \<open>Discovery: \<^verbatim>\<open>normalizeDirs\<close>\<close>

text \<open>The parameter type \<^verbatim>\<open>string | string[] | undefined\<close>.\<close>

datatype dirArg = Unset | Scalar string | Many "string list"

record dirs =
  srcDirs :: "string list"
  outDirs :: "string list"

text \<open>The decimal rendering of a length inside a template literal.\<close>

definition digitChar :: "nat \<Rightarrow> char" where
  "digitChar d = char_of (48 + d)"

fun showNat :: "nat \<Rightarrow> string" where
  "showNat n = (if n < 10 then [digitChar n] else showNat (n div 10) @ [digitChar (n mod 10)])"

declare showNat.simps [simp del]

text \<open>\<^verbatim>\<open>Array.isArray(d) ? d : [d ?? fallback]\<close>\<close>

fun asDirList :: "string \<Rightarrow> dirArg \<Rightarrow> string list" where
  "asDirList fallback (Many ds) = ds"
| "asDirList fallback (Scalar d) = [d]"
| "asDirList fallback Unset = [fallback]"

definition normalizeDirs :: "dirArg \<Rightarrow> dirArg \<Rightarrow> error + dirs" where
  "normalizeDirs srcDir outDir =
     (let srcDirs = asDirList ''src'' srcDir;
          outDirs = asDirList ''out'' outDir
      in if length srcDirs = 0 then
           Inl (Error ''srcDir must not be an empty array'')
         else if length outDirs > 1 \<and> length outDirs \<noteq> length srcDirs then
           Inl (Error (''When both srcDir and outDir are arrays they must have the same length (srcDir: ''
                  @ showNat (length srcDirs) @ '', outDir: '' @ showNat (length outDirs) @ '')''))
         else
           let expandedOutDirs =
                 (if length outDirs = 1 then map (\<lambda>_. outDirs ! 0) srcDirs else outDirs)
           in Inr \<lparr>srcDirs = srcDirs, outDirs = expandedOutDirs\<rparr>)"

section \<open>Host functions the scripts rely on\<close>

text \<open>
  \<^verbatim>\<open>String.prototype.localeCompare\<close> depends on the collation of the host's locale, so it
  is a parameter \<open>lc\<close> of every function that sorts with it. The properties that depend
  on the order assume what ECMAScript calls a consistent comparator: the sign flips when
  the arguments are swapped and ``not after'' is transitive.
\<close>

definition consistentComparator :: "('a \<Rightarrow> 'a \<Rightarrow> int) \<Rightarrow> bool" where
  "consistentComparator cmp \<longleftrightarrow>
     (\<forall>a b. (cmp a b < 0) = (0 < cmp b a)) \<and>
     (\<forall>a b c. cmp a b \<le> 0 \<and> cmp b c \<le> 0 \<longrightarrow> cmp a c \<le> 0)"

text \<open>
  Comparison by code units (the order of \<^verbatim>\<open><\<close> on strings), as a comparator: the
  instance of \<open>lc\<close> in the worked examples.
\<close>

definition codeUnitCompare :: "string \<Rightarrow> string \<Rightarrow> int" where
  "codeUnitCompare a b = (if a < b then - 1 else if a = b then 0 else 1)"

text \<open>
  \<^verbatim>\<open>Array.prototype.sort(compareFn)\<close>, which is stable: an element goes before the
  first one it does not have to follow. For a consistent comparator every stable sort
  returns this list.
\<close>

fun insortBy :: "('a \<Rightarrow> 'a \<Rightarrow> int) \<Rightarrow> 'a \<Rightarrow> 'a list \<Rightarrow> 'a list" where
  "insortBy cmp x [] = [x]"
| "insortBy cmp x (y # ys) = (if cmp x y \<le> 0 then x # y # ys else y # insortBy cmp x ys)"

definition sortBy :: "('a \<Rightarrow> 'a \<Rightarrow> int) \<Rightarrow> 'a list \<Rightarrow> 'a list" where
  "sortBy cmp xs = foldr (insortBy cmp) xs []"

text \<open>\<^verbatim>\<open>c1(a, b) || c2(a, b)\<close> on comparators: the first result that is not zero.\<close>

definition lexCombine :: "('a \<Rightarrow> 'a \<Rightarrow> int) \<Rightarrow> ('a \<Rightarrow> 'a \<Rightarrow> int) \<Rightarrow> 'a \<Rightarrow> 'a \<Rightarrow> int" where
  "lexCombine c1 c2 a b = (if c1 a b \<noteq> 0 then c1 a b else c2 a b)"

section \<open>Modules: \<^verbatim>\<open>dedupeAndValidateModules\<close>\<close>

record GeneratedModule =
  sourceId :: string
  contractName :: string
  exportName :: string
  moduleRelPath :: string
  moduleContent :: string
  dedupeKey :: string

record dedupeResult =
  modules :: "GeneratedModule list"
  warnings :: "string list"

text \<open>
  The loop over \<^verbatim>\<open>modules\<close>. \<open>byKey\<close> is the \<^verbatim>\<open>Map\<close>, kept in insertion order; a
  \<^verbatim>\<open>throw\<close> ends the loop with the error and nothing else.
\<close>

fun dedupeLoop ::
  "GeneratedModule list \<Rightarrow> (string \<times> GeneratedModule) list \<Rightarrow> string list \<Rightarrow>
   error + (string \<times> GeneratedModule) list \<times> string list" where
  "dedupeLoop [] byKey warns = Inr (byKey, warns)"
| "dedupeLoop (m # rest) byKey warns =
     (case map_of byKey (dedupeKey m) of
        None \<Rightarrow> dedupeLoop rest (byKey @ [(dedupeKey m, m)]) warns
      | Some existing \<Rightarrow>
          if moduleContent existing = moduleContent m then
            dedupeLoop rest byKey (warns @ [''Duplicate ABI ignored for '' @ dedupeKey m])
          else
            Inl (Error (''ABI collision for '' @ dedupeKey m
                   @ '': same source and contractName produced different ABI content'')))"

text \<open>The comparator of the final sort: the first non-zero of three \<^verbatim>\<open>localeCompare\<close>s.\<close>

definition moduleOrder :: "(string \<Rightarrow> string \<Rightarrow> int) \<Rightarrow> GeneratedModule \<Rightarrow> GeneratedModule \<Rightarrow> int" where
  "moduleOrder lc a b =
     (if lc (sourceId a) (sourceId b) \<noteq> 0 then lc (sourceId a) (sourceId b)
      else if lc (contractName a) (contractName b) \<noteq> 0 then lc (contractName a) (contractName b)
      else lc (moduleRelPath a) (moduleRelPath b))"

definition dedupeAndValidateModules ::
  "(string \<Rightarrow> string \<Rightarrow> int) \<Rightarrow> GeneratedModule list \<Rightarrow> error + dedupeResult" where
  "dedupeAndValidateModules lc ms =
     (case dedupeLoop ms [] [] of
        Inl e \<Rightarrow> Inl e
      | Inr (byKey, warns) \<Rightarrow>
          Inr \<lparr>modules = sortBy (moduleOrder lc) (map snd byKey), warnings = warns\<rparr>)"

text \<open>
  The vocabulary of the specification: the modules that are the first with their dedupe
  key, the later ones, and whether modules with one key all carry the same content.
\<close>

definition keyed :: "GeneratedModule list \<Rightarrow> (string \<times> GeneratedModule) list" where
  "keyed xs = map (\<lambda>m. (dedupeKey m, m)) xs"

definition firstSeen :: "GeneratedModule list \<Rightarrow> GeneratedModule list" where
  "firstSeen ms =
     [ms ! i. i \<leftarrow> [0..<length ms], dedupeKey (ms ! i) \<notin> dedupeKey ` set (take i ms)]"

definition laterSeen :: "GeneratedModule list \<Rightarrow> GeneratedModule list" where
  "laterSeen ms =
     [ms ! i. i \<leftarrow> [0..<length ms], dedupeKey (ms ! i) \<in> dedupeKey ` set (take i ms)]"

definition sameKeySameContent :: "GeneratedModule list \<Rightarrow> bool" where
  "sameKeySameContent ms \<longleftrightarrow>
     (\<forall>x \<in> set ms. \<forall>y \<in> set ms. dedupeKey x = dedupeKey y \<longrightarrow> moduleContent x = moduleContent y)"

definition dupWarning :: "GeneratedModule \<Rightarrow> string" where
  "dupWarning m = ''Duplicate ABI ignored for '' @ dedupeKey m"

definition collisionMessage :: "string \<Rightarrow> string" where
  "collisionMessage k = ''ABI collision for '' @ k
       @ '': same source and contractName produced different ABI content''"

text \<open>
  ``Sorted by \<open>(sourceId, contractName, moduleRelPath)\<close>'': \<open>a\<close> may stand before \<open>b\<close>
  when the triple of \<open>a\<close> is not after the triple of \<open>b\<close> lexicographically.
\<close>

definition tripleNotAfter :: "(string \<Rightarrow> string \<Rightarrow> int) \<Rightarrow> GeneratedModule \<Rightarrow> GeneratedModule \<Rightarrow> bool" where
  "tripleNotAfter lc a b \<longleftrightarrow>
     lc (sourceId a) (sourceId b) < 0 \<or>
     (lc (sourceId a) (sourceId b) = 0 \<and>
        (lc (contractName a) (contractName b) < 0 \<or>
         (lc (contractName a) (contractName b) = 0 \<and>
            lc (moduleRelPath a) (moduleRelPath b) \<le> 0)))"

section \<open>JavaScript objects, sets and the default sort\<close>

text \<open>
  An object with string keys is the list of its own properties in the order they were
  created; the keys are distinct. \<^verbatim>\<open>Object.keys\<close> lists the array indices first, in
  ascending numeric order, then the other keys in creation order.
\<close>

type_synonym 'v object = "(string \<times> 'v) list"

definition natOfDigits :: "string \<Rightarrow> nat" where
  "natOfDigits k = foldl (\<lambda>n c. 10 * n + (of_char c - 48)) 0 k"

definition isArrayIndex :: "string \<Rightarrow> bool" where
  "isArrayIndex k \<longleftrightarrow>
     k \<noteq> [] \<and> (\<forall>c \<in> set k. is_digit c) \<and> (k = ''0'' \<or> hd k \<noteq> CHR ''0'') \<and>
     natOfDigits k < 4294967295"

definition Object_keys :: "'v object \<Rightarrow> string list" where
  "Object_keys obj =
     (let ks = map fst obj
      in sort_key natOfDigits (filter isArrayIndex ks) @ filter (\<lambda>k. \<not> isArrayIndex k) ks)"

text \<open>\<^verbatim>\<open>obj[key]\<close> where the value is then handed to \<^verbatim>\<open>new Set\<close>: a missing key gives
  \<^verbatim>\<open>undefined\<close> and \<^verbatim>\<open>new Set(undefined)\<close> is empty.\<close>

definition getSignatures :: "string list object \<Rightarrow> string \<Rightarrow> string list" where
  "getSignatures obj key = (case map_of obj key of Some sigs \<Rightarrow> sigs | None \<Rightarrow> [])"

text \<open>\<^verbatim>\<open>[...new Set(xs)]\<close>: the elements of \<open>xs\<close> in the order of their first occurrence.\<close>

definition setOf :: "'a list \<Rightarrow> 'a list" where
  "setOf xs = rev (remdups (rev xs))"

text \<open>
  \<^verbatim>\<open>Array.prototype.sort()\<close> without a comparator orders strings by their code units,
  which is the order \<open>\<le>\<close> on \<^typ>\<open>string\<close>; it is written \<^term>\<open>sort\<close> below.
\<close>

section \<open>Changelog: \<^verbatim>\<open>diffManifests\<close>\<close>

type_synonym AbiManifest = "string list object"

record itemDiff =
  itemsAdded :: "string list"
  itemsRemoved :: "string list"

record ManifestDiff =
  added :: "string list"
  removed :: "string list"
  changed :: "(string \<times> itemDiff) list"

text \<open>The body of the loop over \<^verbatim>\<open>currKeys\<close>: the entry it sets in \<^verbatim>\<open>changed\<close>, if any.\<close>

definition changedEntry ::
  "AbiManifest \<Rightarrow> AbiManifest \<Rightarrow> string list \<Rightarrow> string \<Rightarrow> (string \<times> itemDiff) list" where
  "changedEntry previous current prevKeys key =
     (if key \<notin> set prevKeys then []
      else
        let prevSigs = setOf (getSignatures previous key);
            currSigs = setOf (getSignatures current key);
            itemsAdded = sort (filter (\<lambda>s. s \<notin> set prevSigs) currSigs);
            itemsRemoved = sort (filter (\<lambda>s. s \<notin> set currSigs) prevSigs)
        in if length itemsAdded > 0 \<or> length itemsRemoved > 0
           then [(key, \<lparr>itemsAdded = itemsAdded, itemsRemoved = itemsRemoved\<rparr>)]
           else [])"

definition diffManifests :: "AbiManifest \<Rightarrow> AbiManifest \<Rightarrow> ManifestDiff" where
  "diffManifests previous current =
     (let prevKeys = setOf (Object_keys previous);
          currKeys = setOf (Object_keys current)
      in \<lparr>added = sort (filter (\<lambda>k. k \<notin> set prevKeys) currKeys),
          removed = sort (filter (\<lambda>k. k \<notin> set currKeys) prevKeys),
          changed = concat (map (changedEntry previous current prevKeys) currKeys)\<rparr>)"

section \<open>Changelog: \<^verbatim>\<open>resolveBaseVersion\<close>\<close>

text \<open>
  \<^verbatim>\<open>versionLookup\<close> is the function the caller injects; a lookup yields a version string
  or \<^verbatim>\<open>null\<close>. \<^verbatim>\<open>semverGte\<close> comes from the \<^verbatim>\<open>semver\<close> package and is a parameter: it
  yields a boolean, or throws on a string that is not a version. The operands of \<^verbatim>\<open>&&\<close>
  are tested for truthiness, so an empty string counts as absent there, while \<^verbatim>\<open>??\<close>
  only skips \<^verbatim>\<open>null\<close>. The \<^verbatim>\<open>console.log\<close> of the source is not modelled.
\<close>

definition truthy :: "string option \<Rightarrow> bool" where
  "truthy v \<longleftrightarrow> (case v of None \<Rightarrow> False | Some s \<Rightarrow> s \<noteq> [])"

definition resolveBaseVersion ::
  "(string \<Rightarrow> string \<Rightarrow> error + bool) \<Rightarrow> string \<Rightarrow> string \<Rightarrow>
   (string \<Rightarrow> string \<Rightarrow> string option) \<Rightarrow> error + string option" where
  "resolveBaseVersion semverGte packageName tag versionLookup =
     (if tag = ''latest'' then Inr (versionLookup packageName ''latest'')
      else
        let tagVersion = versionLookup packageName tag;
            latestVersion = versionLookup packageName ''latest''
        in case (tagVersion, latestVersion) of
             (Some t, Some l) \<Rightarrow>
               if truthy tagVersion \<and> truthy latestVersion then
                 (case semverGte l t of
                    Inl e \<Rightarrow> Inl e
                  | Inr ge \<Rightarrow> Inr (if ge then latestVersion else tagVersion))
               else Inr tagVersion
           | (Some t, None) \<Rightarrow> Inr tagVersion
           | (None, _) \<Rightarrow> Inr latestVersion)"

section \<open>Discovery: \<^verbatim>\<open>matchesAny\<close>\<close>

text \<open>
  The pattern is turned into the source of a regular expression by three replacements:
  the characters of the class \<^verbatim>\<open>[.+^${}()|[\]\\]\<close> get a backslash in front, every
  \<^verbatim>\<open>*\<close> becomes \<^verbatim>\<open>.*\<close> and every \<^verbatim>\<open>?\<close> becomes \<^verbatim>\<open>.\<close>; the result is put between
  \<^verbatim>\<open>^\<close> and \<^verbatim>\<open>$\<close>.
\<close>

definition backslash :: char where
  "backslash = CHR 0x5C"

definition escapedChar :: "char \<Rightarrow> bool" where
  "escapedChar c \<longleftrightarrow> c \<in> set ''.+^${}()|[]'' \<or> c = backslash"

definition escapeSpecials :: "string \<Rightarrow> string" where
  "escapeSpecials p = concat (map (\<lambda>c. if escapedChar c then [backslash, c] else [c]) p)"

definition replaceStars :: "string \<Rightarrow> string" where
  "replaceStars p = concat (map (\<lambda>c. if c = CHR ''*'' then ''.*'' else [c]) p)"

definition replaceQuestionMarks :: "string \<Rightarrow> string" where
  "replaceQuestionMarks p = map (\<lambda>c. if c = CHR ''?'' then CHR ''.'' else c) p"

definition regexSource :: "string \<Rightarrow> string" where
  "regexSource pattern =
     ''^'' @ replaceQuestionMarks (replaceStars (escapeSpecials pattern)) @ ''$''"

text \<open>
  \<^verbatim>\<open>new RegExp(source)\<close> for the part of the regular-expression language that these
  sources use: between the anchors, a backslash followed by a syntax character stands
  for that character, \<^verbatim>\<open>.*\<close> and \<^verbatim>\<open>.\<close> are the wildcard with and without the star,
  and every character that is not a syntax character stands for itself. Every source in
  this part is a well-formed expression. A source outside it yields \<open>None\<close>, which
  \<^verbatim>\<open>matchesAny\<close> turns into an error, as an exception of the constructor would be; no
  source that \<open>regexSource\<close> builds is outside it (lemma \<open>RegExp_regexSource\<close>).
\<close>

datatype atom = Lit char | AnyChar | AnyStar

definition syntaxChar :: "char \<Rightarrow> bool" where
  "syntaxChar c \<longleftrightarrow> escapedChar c \<or> c = CHR ''*'' \<or> c = CHR ''?''"

fun parseAtoms :: "string \<Rightarrow> atom list option" where
  "parseAtoms [] = Some []"
| "parseAtoms [c] =
     (if c = CHR ''.'' then Some [AnyChar]
      else if syntaxChar c then None
      else Some [Lit c])"
| "parseAtoms (c # d # rest) =
     (if c = backslash then
        (if syntaxChar d then map_option ((#) (Lit d)) (parseAtoms rest) else None)
      else if c = CHR ''.'' then
        (if d = CHR ''*'' then map_option ((#) AnyStar) (parseAtoms rest)
         else map_option ((#) AnyChar) (parseAtoms (d # rest)))
      else if syntaxChar c then None
      else map_option ((#) (Lit c)) (parseAtoms (d # rest)))"

definition RegExp :: "string \<Rightarrow> atom list option" where
  "RegExp source =
     (case source of
        [] \<Rightarrow> None
      | c # rest \<Rightarrow>
          if c = CHR ''^'' \<and> rest \<noteq> [] \<and> last rest = CHR ''$''
          then parseAtoms (butlast rest) else None)"

text \<open>
  \<^verbatim>\<open>regex.test(target)\<close> for an anchored expression without flags. The wildcard
  \<^verbatim>\<open>.\<close> matches any character except a line terminator: line feed and carriage
  return (and U+2028, U+2029, which the 8-bit \<^typ>\<open>char\<close> does not have).
\<close>

definition lineTerminator :: "char \<Rightarrow> bool" where
  "lineTerminator c \<longleftrightarrow> c = CHR 0x0A \<or> c = CHR 0x0D"

fun test :: "atom list \<Rightarrow> string \<Rightarrow> bool" where
  "test [] s \<longleftrightarrow> s = []"
| "test (Lit c # atoms) s \<longleftrightarrow> (case s of [] \<Rightarrow> False | x # xs \<Rightarrow> x = c \<and> test atoms xs)"
| "test (AnyChar # atoms) s \<longleftrightarrow>
     (case s of [] \<Rightarrow> False | x # xs \<Rightarrow> \<not> lineTerminator x \<and> test atoms xs)"
| "test (AnyStar # atoms) s \<longleftrightarrow>
     test atoms s \<or>
     (case s of [] \<Rightarrow> False | x # xs \<Rightarrow> \<not> lineTerminator x \<and> test (AnyStar # atoms) xs)"

fun matchesAny :: "string \<Rightarrow> string list \<Rightarrow> string option \<Rightarrow> error + bool" where
  "matchesAny filename [] relPath = Inr False"
| "matchesAny filename (pattern # patterns) relPath =
     (case RegExp (regexSource pattern) of
        None \<Rightarrow> Inl (Error ''Invalid regular expression'')
      | Some regex \<Rightarrow>
          let target = (if CHR ''/'' \<in> set pattern
                        then (case relPath of Some r \<Rightarrow> r | None \<Rightarrow> filename)
                        else filename)
          in if test regex target then Inr True else matchesAny filename patterns relPath)"

text \<open>
  The matching the specification describes: \<^verbatim>\<open>*\<close> stands for any sequence of
  characters, \<^verbatim>\<open>?\<close> for any single character and every other character for itself.
\<close>

fun globMatch :: "string \<Rightarrow> string \<Rightarrow> bool" where
  "globMatch [] s \<longleftrightarrow> s = []"
| "globMatch (p # ps) s \<longleftrightarrow>
     (if p = CHR ''*'' then
        globMatch ps s \<or> (case s of [] \<Rightarrow> False | x # xs \<Rightarrow> globMatch (p # ps) xs)
      else if p = CHR ''?'' then
        (case s of [] \<Rightarrow> False | x # xs \<Rightarrow> globMatch ps xs)
      else
        (case s of [] \<Rightarrow> False | x # xs \<Rightarrow> x = p \<and> globMatch ps xs))"

text \<open>
  Vocabulary for the properties: what one pattern character becomes in the source and in
  the compiled expression, and the string a pattern is tested against.
\<close>

definition atomOf :: "char \<Rightarrow> atom" where
  "atomOf c = (if c = CHR ''*'' then AnyStar else if c = CHR ''?'' then AnyChar else Lit c)"

definition translate :: "char \<Rightarrow> string" where
  "translate c =
     (if escapedChar c then [backslash, c]
      else if c = CHR ''*'' then ''.*''
      else if c = CHR ''?'' then ''.''
      else [c])"

definition targetOf :: "string \<Rightarrow> string option \<Rightarrow> string \<Rightarrow> string" where
  "targetOf filename relPath pattern =
     (if CHR ''/'' \<in> set pattern then (case relPath of Some r \<Rightarrow> r | None \<Rightarrow> filename)
      else filename)"

section \<open>Changelog: signature formatting\<close>

text \<open>
  A parameter of an ABI item: its \<^verbatim>\<open>type\<close>, the optional \<^verbatim>\<open>indexed\<close> flag and the
  optional \<^verbatim>\<open>components\<close> of a tuple. The JSON of a compiled contract also gives every
  parameter a \<^verbatim>\<open>name\<close>; the type the script declares does not mention it, the parsed
  objects carry it all the same, and it is kept here as \<open>paramName\<close>.
\<close>

datatype AbiParam =
  AbiParam (paramType: string) (paramName: "string option") (indexed: "bool option")
    (components: "AbiParam list option")

record AbiItem =
  itemType :: string
  itemName :: "string option"
  inputs :: "AbiParam list option"
  outputs :: "AbiParam list option"
  stateMutability :: "string option"

text \<open>\<^verbatim>\<open>xs ?? []\<close>\<close>

definition orEmpty :: "'a list option \<Rightarrow> 'a list" where
  "orEmpty xs = (case xs of None \<Rightarrow> [] | Some ys \<Rightarrow> ys)"

text \<open>A value inside a template literal: \<^verbatim>\<open>undefined\<close> is rendered as that word.\<close>

definition templateText :: "string option \<Rightarrow> string" where
  "templateText v = (case v of None \<Rightarrow> ''undefined'' | Some s \<Rightarrow> s)"

fun formatParamType :: "AbiParam \<Rightarrow> bool \<Rightarrow> string" where
  "formatParamType (AbiParam ty nm idx comps) includeIndexed =
     (let result =
            (if ty = ''tuple'' \<or> take 6 ty = ''tuple['' then
               let suffix = drop 5 ty;
                   inner = join '','' (map (\<lambda>c. formatParamType c False)
                                          (case comps of None \<Rightarrow> [] | Some cs \<Rightarrow> cs))
               in ''('' @ inner @ '')'' @ suffix
             else ty)
      in if includeIndexed \<and> idx = Some True then result @ '' indexed'' else result)"

definition formatAbiItemSignature :: "AbiItem \<Rightarrow> string option" where
  "formatAbiItemSignature item =
     (let ins = orEmpty (inputs item) in
      if itemType item = ''function'' then
        let params = join '','' (map (\<lambda>p. formatParamType p False) ins);
            outs = join '','' (map (\<lambda>p. formatParamType p False) (orEmpty (outputs item)));
            mut = (case stateMutability item of None \<Rightarrow> [] | Some m \<Rightarrow> m);
            ret = (if length outs > 0 then '' returns ('' @ outs @ '')'' else [])
        in Some (''function '' @ templateText (itemName item) @ ''('' @ params @ '')''
                 @ (if mut \<noteq> [] then '' '' @ mut else []) @ ret)
      else if itemType item = ''event'' then
        let params = join '','' (map (\<lambda>p. formatParamType p True) ins)
        in Some (''event '' @ templateText (itemName item) @ ''('' @ params @ '')'')
      else if itemType item = ''error'' then
        let params = join '','' (map (\<lambda>p. formatParamType p False) ins)
        in Some (''error '' @ templateText (itemName item) @ ''('' @ params @ '')'')
      else if itemType item = ''constructor'' then
        let params = join '','' (map (\<lambda>p. formatParamType p False) ins);
            mut = (case stateMutability item of None \<Rightarrow> [] | Some m \<Rightarrow> m)
        in Some (''constructor('' @ params @ '')'' @ (if mut \<noteq> [] then '' '' @ mut else []))
      else if itemType item = ''fallback'' then Some ''fallback()''
      else if itemType item = ''receive'' then Some ''receive()''
      else None)"



section \<open>Changelog: \<^verbatim>\<open>parseAbiFromModuleContent\<close> and \<^verbatim>\<open>buildManifest\<close>\<close>

text \<open>\<^verbatim>\<open>indexOf\<close>, \<^verbatim>\<open>lastIndexOf\<close> (\<open>None\<close> for \<^verbatim>\<open>-1\<close>) and \<^verbatim>\<open>slice\<close> on strings.\<close>

fun indexOf :: "string \<Rightarrow> string \<Rightarrow> nat option" where
  "indexOf [] sub = (if sub = [] then Some 0 else None)"
| "indexOf (c # cs) sub =
     (if take (length sub) (c # cs) = sub then Some 0 else map_option Suc (indexOf cs sub))"

fun lastIndexOf :: "string \<Rightarrow> string \<Rightarrow> nat option" where
  "lastIndexOf [] sub = (if sub = [] then Some 0 else None)"
| "lastIndexOf (c # cs) sub =
     (case lastIndexOf cs sub of
        Some i \<Rightarrow> Some (Suc i)
      | None \<Rightarrow> if take (length sub) (c # cs) = sub then Some 0 else None)"

definition slice :: "string \<Rightarrow> nat \<Rightarrow> nat \<Rightarrow> string" where
  "slice s from to = take (to - from) (drop from s)"

text \<open>
  \<^verbatim>\<open>JSON.parse(text) as AbiItem[]\<close> is a parameter \<open>jsonParse\<close>: it yields the parsed
  array, or \<open>None\<close> when \<^verbatim>\<open>JSON.parse\<close> throws, which the source catches.
\<close>

definition parseAbiFromModuleContent ::
  "(string \<Rightarrow> AbiItem list option) \<Rightarrow> string \<Rightarrow> AbiItem list option" where
  "parseAbiFromModuleContent jsonParse content =
     (case (indexOf content ''['', lastIndexOf content ''] as const;'') of
        (Some start, Some end) \<Rightarrow> jsonParse (slice content start (end + 1))
      | _ \<Rightarrow> None)"

text \<open>\<^verbatim>\<open>.replace(/\.ts$/, "")\<close>\<close>

definition stripTs :: "string \<Rightarrow> string" where
  "stripTs p =
     (if 3 \<le> length p \<and> drop (length p - 3) p = ''.ts'' then take (length p - 3) p else p)"

text \<open>\<^verbatim>\<open>abi.map(formatAbiItemSignature).filter((s) => s !== null).sort()\<close>\<close>

definition signaturesOf :: "AbiItem list \<Rightarrow> string list" where
  "signaturesOf abi = sort (map the (filter (\<lambda>s. s \<noteq> None) (map formatAbiItemSignature abi)))"

text \<open>The loop over the modules: the entries it pushes.\<close>

fun manifestEntries ::
  "(string \<Rightarrow> AbiItem list option) \<Rightarrow> GeneratedModule list \<Rightarrow> (string \<times> string list) list" where
  "manifestEntries jsonParse [] = []"
| "manifestEntries jsonParse (m # ms) =
     (let key = stripTs (moduleRelPath m) in
      case parseAbiFromModuleContent jsonParse (moduleContent m) of
        None \<Rightarrow> manifestEntries jsonParse ms
      | Some abi \<Rightarrow> (key, signaturesOf abi) # manifestEntries jsonParse ms)"

text \<open>
  \<^verbatim>\<open>Object.fromEntries\<close>: the entries are set one after the other; setting a key that
  exists replaces its value and leaves its place.
\<close>

definition Object_fromEntries :: "(string \<times> 'v) list \<Rightarrow> 'v object" where
  "Object_fromEntries entries = foldl (\<lambda>obj (k, v). AList.update k v obj) [] entries"

definition buildManifest ::
  "(string \<Rightarrow> string \<Rightarrow> int) \<Rightarrow> (string \<Rightarrow> AbiItem list option) \<Rightarrow> GeneratedModule list \<Rightarrow>
   AbiManifest" where
  "buildManifest lc jsonParse ms =
     Object_fromEntries
       (sortBy (\<lambda>a b. lc (fst a) (fst b)) (manifestEntries jsonParse ms))"


definition parsedWithKey ::
  "(string \<Rightarrow> AbiItem list option) \<Rightarrow> string \<Rightarrow> GeneratedModule list \<Rightarrow> GeneratedModule list" where
  "parsedWithKey jsonParse k ms =
     filter (\<lambda>m. stripTs (moduleRelPath m) = k \<and>
                 parseAbiFromModuleContent jsonParse (moduleContent m) \<noteq> None) ms"

section \<open>Data of the worked examples\<close>

text \<open>
  Module contents as \<^verbatim>\<open>artifactToModule\<close> writes them (without the indentation), and
  \<^verbatim>\<open>JSON.parse\<close> on the three array texts that occur in them. The examples parse no
  other text.
\<close>

definition moduleAt :: "string \<Rightarrow> string \<Rightarrow> GeneratedModule" where
  "moduleAt path content =
     \<lparr>sourceId = ''contracts'', contractName = ''Token'', exportName = ''tokenAbi'',
      moduleRelPath = path, moduleContent = content, dedupeKey = ''contracts:Token''\<rparr>"

definition errorWhoText :: string where
  \<open>errorWhoText = ''[{"type":"error","name":"Bad","inputs":[{"name":"who","type":"address"}]}]''\<close>

definition errorWhomText :: string where
  \<open>errorWhomText = ''[{"type":"error","name":"Bad","inputs":[{"name":"whom","type":"address"}]}]''\<close>

definition receiveText :: string where
  \<open>receiveText = ''[{"type":"receive"}]''\<close>

definition errorAbi :: "string \<Rightarrow> AbiItem list" where
  "errorAbi pname =
     [\<lparr>itemType = ''error'', itemName = Some ''Bad'',
       inputs = Some [AbiParam ''address'' (Some pname) None None],
       outputs = None, stateMutability = None\<rparr>]"

definition receiveAbi :: "AbiItem list" where
  "receiveAbi =
     [\<lparr>itemType = ''receive'', itemName = None, inputs = None, outputs = None,
       stateMutability = None\<rparr>]"

definition jsonParseExamples :: "string \<Rightarrow> AbiItem list option" where
  "jsonParseExamples text =
     (if text = errorWhoText then Some (errorAbi ''who'')
      else if text = errorWhomText then Some (errorAbi ''whom'')
      else if text = receiveText then Some receiveAbi
      else None)"

definition contentOf :: "string \<Rightarrow> string" where
  "contentOf arrayText =
     ''export const tokenAbi = '' @ arrayText @ '' as const;'' @
     [CHR 0x0A, CHR 0x0A] @ ''export default tokenAbi;'' @ [CHR 0x0A]"

section \<open>JSON values and \<^verbatim>\<open>JSON.stringify\<close>\<close>

text \<open>
  The \<^verbatim>\<open>abi\<close> of an artifact is what \<^verbatim>\<open>JSON.parse\<close> made of the artifact file. An object
  is the list of its properties in the order \<^verbatim>\<open>JSON.stringify\<close> and \<^verbatim>\<open>Object.entries\<close>
  visit them: for keys that are not array indices, the order in which the file has them.
  Numbers are integers here (an ABI has none at all).
\<close>

datatype json =
  JNull | JBool bool | JNumber int | JString string
| JArray "json list" | JObject "(string \<times> json) list"

definition showInt :: "int \<Rightarrow> string" where
  "showInt n = (if n < 0 then ''-'' @ showNat (nat (- n)) else showNat (nat n))"

definition hexDigit :: "nat \<Rightarrow> char" where
  "hexDigit d = (if d < 10 then char_of (48 + d) else char_of (87 + d))"

text \<open>\<^verbatim>\<open>JSON.stringify\<close> on a string: the quoted text with its escapes.\<close>

definition quoteChar :: "char \<Rightarrow> string" where
  "quoteChar c =
     (if c = CHR 0x22 then [backslash, CHR 0x22]
      else if c = backslash then [backslash, backslash]
      else if c = CHR 0x08 then [backslash, CHR ''b'']
      else if c = CHR 0x0C then [backslash, CHR ''f'']
      else if c = CHR 0x0A then [backslash, CHR ''n'']
      else if c = CHR 0x0D then [backslash, CHR ''r'']
      else if c = CHR 0x09 then [backslash, CHR ''t'']
      else if (of_char c :: nat) < 32 then
        [backslash, CHR ''u'', CHR ''0'', CHR ''0'',
         hexDigit (of_char c div 16), hexDigit (of_char c mod 16)]
      else [c])"

definition quoteJSON :: "string \<Rightarrow> string" where
  "quoteJSON s = [CHR 0x22] @ concat (map quoteChar s) @ [CHR 0x22]"

text \<open>
  \<^verbatim>\<open>JSON.stringify(value, null, 2)\<close>; \<open>ind\<close> is the indentation of the line the value
  starts on.
\<close>

fun stringifyAt :: "string \<Rightarrow> json \<Rightarrow> string" where
  "stringifyAt ind JNull = ''null''"
| "stringifyAt ind (JBool b) = (if b then ''true'' else ''false'')"
| "stringifyAt ind (JNumber n) = showInt n"
| "stringifyAt ind (JString s) = quoteJSON s"
| "stringifyAt ind (JArray xs) =
     (if xs = [] then ''[]''
      else ''['' @ [CHR 0x0A] @ (ind @ ''  '')
           @ join ('','' @ [CHR 0x0A] @ (ind @ ''  '')) (map (stringifyAt (ind @ ''  '')) xs)
           @ [CHR 0x0A] @ ind @ '']'')"
| "stringifyAt ind (JObject kvs) =
     (if kvs = [] then ''{}''
      else ''{'' @ [CHR 0x0A] @ (ind @ ''  '')
           @ join ('','' @ [CHR 0x0A] @ (ind @ ''  ''))
               (map (\<lambda>kv. quoteJSON (fst kv) @ '': '' @ stringifyAt (ind @ ''  '') (snd kv)) kvs)
           @ [CHR 0x0A] @ ind @ ''}'')"

definition JSON_stringify_2 :: "json \<Rightarrow> string" where
  "JSON_stringify_2 v = stringifyAt [] v"

text \<open>
  \<^verbatim>\<open>stableStringify\<close> of \<^verbatim>\<open>utils.ts\<close>: compact, the entries of an object sorted by key
  with \<^verbatim>\<open>localeCompare\<close>. The values are rendered before the entries are sorted, not
  after as in the source; the sort looks at the keys only, so the text is the same.
\<close>

fun stableStringify :: "(string \<Rightarrow> string \<Rightarrow> int) \<Rightarrow> json \<Rightarrow> string" where
  "stableStringify lc (JArray xs) = ''['' @ join '','' (map (stableStringify lc) xs) @ '']''"
| "stableStringify lc (JObject kvs) =
     ''{'' @ join '',''
              (map (\<lambda>kv. quoteJSON (fst kv) @ '':'' @ snd kv)
                 (sortBy (\<lambda>a b. lc (fst a) (fst b))
                    (map (\<lambda>kv. (fst kv, stableStringify lc (snd kv))) kvs)))
         @ ''}''"
| "stableStringify lc JNull = ''null''"
| "stableStringify lc (JBool b) = (if b then ''true'' else ''false'')"
| "stableStringify lc (JNumber n) = showInt n"
| "stableStringify lc (JString s) = quoteJSON s"

text \<open>
  Two values are equal up to the order of object keys when sorting the entries of every
  object by key makes them equal.
\<close>

fun sortKeys :: "json \<Rightarrow> json" where
  "sortKeys (JArray xs) = JArray (map sortKeys xs)"
| "sortKeys (JObject kvs) = JObject (sort_key fst (map (\<lambda>kv. (fst kv, sortKeys (snd kv))) kvs))"
| "sortKeys v = v"

definition sameUpToKeyOrder :: "json \<Rightarrow> json \<Rightarrow> bool" where
  "sameUpToKeyOrder a b \<longleftrightarrow> sortKeys a = sortKeys b"

section \<open>Modules: \<^verbatim>\<open>artifactToModule\<close>\<close>

text \<open>
  A discovered artifact; its fields carry the prefix \<open>art\<close> because \<open>sourceId\<close> and
  \<open>contractName\<close> name the fields of a generated module. \<^verbatim>\<open>path.posix.join\<close> of Node is
  the parameter \<open>posixJoin\<close>.
\<close>

record DiscoveredArtifact =
  artSourceId :: string
  artFilePath :: string
  artContractName :: string
  artRelDir :: string
  artAbi :: "json list"

definition artifactToModule ::
  "(string \<Rightarrow> string \<Rightarrow> string) \<Rightarrow> DiscoveredArtifact \<Rightarrow> string option \<Rightarrow> GeneratedModule" where
  "artifactToModule posixJoin artifact mainSource =
     (let exportName = toCamelCase (artContractName artifact) @ ''Abi'';
          fileName = toCamelCase (artContractName artifact) @ ''.ts'';
          innerPath = (if artRelDir artifact = ''.'' then fileName
                       else posixJoin (artRelDir artifact) fileName);
          isMain = (mainSource \<noteq> None \<and> Some (artSourceId artifact) = mainSource);
          moduleRelPath = (if isMain then innerPath
                           else posixJoin (artSourceId artifact) innerPath);
          abiContent = JSON_stringify_2 (JArray (artAbi artifact))
      in \<lparr>sourceId = artSourceId artifact,
          contractName = artContractName artifact,
          exportName = exportName,
          moduleRelPath = moduleRelPath,
          moduleContent = ''export const '' @ exportName @ '' = '' @ abiContent @ '' as const;''
              @ [CHR 0x0A, CHR 0x0A] @ ''export default '' @ exportName @ '';'' @ [CHR 0x0A],
          dedupeKey = artSourceId artifact @ '':'' @ artContractName artifact\<rparr>)"

section \<open>Properties of the naming functions\<close>

lemma upper_not_lower: "is_upper c \<Longrightarrow> \<not> is_lower c"
  by (auto simp: is_upper_def is_lower_def less_eq_char_def)

lemma upper_not_digit: "is_upper c \<Longrightarrow> \<not> is_digit c"
  by (auto simp: is_upper_def is_digit_def less_eq_char_def)

text \<open>
  A match of the first expression ends in a lowercase letter and one of the second in an
  uppercase letter, so no match can start inside the characters another one consumed:
  the left-to-right scan finds every boundary.
\<close>

lemma replaceAcronymBoundary_spec:
  "replaceAcronymBoundary s = insertBoundaries acronymBoundary s"
proof (induction s rule: replaceAcronymBoundary.induct)
  case (1 a b c rest)
  have nb: "\<not> acronymBoundary (b # c # rest)" if "is_lower c"
    using that upper_not_lower by (cases rest) auto
  have nc: "\<not> acronymBoundary (c # rest)" if "is_lower c"
    using that upper_not_lower by (cases "c # rest" rule: acronymBoundary.cases) auto
  show ?case using 1 nb nc by simp
qed simp_all

lemma replaceCamelBoundary_spec:
  "replaceCamelBoundary s = insertBoundaries camelBoundary s"
proof (induction s rule: replaceCamelBoundary.induct)
  case (1 a b rest)
  have nb: "\<not> camelBoundary (b # rest)" if "is_upper b"
    using that upper_not_lower upper_not_digit by (cases rest) auto
  show ?case using 1 nb by simp
qed simp_all

lemma lowercase_then_drop_empty:
  "map (map toLowerChar) (filter (\<lambda>t. t \<noteq> []) xs) =
   filter (\<lambda>t. t \<noteq> []) (map (map toLowerChar) xs)"
  by (induction xs) auto

lemma splitWords_refines_spec: "splitWords s = splitWords_spec s"
  by (simp add: splitWords_def splitWords_spec_def replaceAcronymBoundary_spec
      replaceCamelBoundary_spec lowercase_then_drop_empty)

lemma splitWords_nonempty_tokens: "[] \<notin> set (splitWords s)"
  by (auto simp: splitWords_def)

lemma splitWords_WBERA: "splitWords ''WBERA'' = [''wbera'']"
  by code_simp

lemma splitWords_ERC20Token: "splitWords ''ERC20Token'' = [''erc20'', ''token'']"
  by code_simp

lemma splitWords_BGTStaker: "splitWords ''BGTStaker'' = [''bgt'', ''staker'']"
  by code_simp

lemma case_fallbacks:
  "splitWords s = [] \<Longrightarrow>
     toCamelCase s = ''abi'' \<and> toPascalCase s = ''Contract'' \<and> toKebabCase s = []"
  by (simp add: toCamelCase_def toPascalCase_def toKebabCase_def)

text \<open>
  C8. \<^verbatim>\<open>splitWords\<close> is the segmentation the specification describes (a boundary
  between an uppercase letter and a following uppercase-then-lowercase pair, then a
  boundary between a lowercase letter or digit and a following uppercase letter, a split
  on runs of non-alphanumeric characters, lowercase, drop empties); it maps \<^verbatim>\<open>WBERA\<close>, \<^verbatim>\<open>ERC20Token\<close> and \<^verbatim>\<open>BGTStaker\<close> as stated; and when
  it yields no token \<^verbatim>\<open>toCamelCase\<close> is \<^verbatim>\<open>"abi"\<close>, \<^verbatim>\<open>toPascalCase\<close> is \<^verbatim>\<open>"Contract"\<close>
  and \<^verbatim>\<open>toKebabCase\<close> is the empty string.
\<close>

theorem splitWords_segmentation:
  "splitWords s = splitWords_spec s \<and>
   splitWords ''WBERA'' = [''wbera''] \<and>
   splitWords ''ERC20Token'' = [''erc20'', ''token''] \<and>
   splitWords ''BGTStaker'' = [''bgt'', ''staker''] \<and>
   (splitWords s = [] \<longrightarrow>
      toCamelCase s = ''abi'' \<and> toPascalCase s = ''Contract'' \<and> toKebabCase s = [])"
  using splitWords_refines_spec [of s] splitWords_WBERA splitWords_ERC20Token
    splitWords_BGTStaker case_fallbacks [of s]
  by blast

theorem splitWords_segmentation_witness:
  "splitWords ''--'' = [] \<and> toCamelCase ''--'' = ''abi'' \<and>
   toPascalCase ''--'' = ''Contract'' \<and> toKebabCase ''--'' = []"
proof -
  have e: "splitWords ''--'' = []" by code_simp
  from splitWords_segmentation [of "''--''"] e show ?thesis by blast
qed

section \<open>Properties of \<^verbatim>\<open>normalizeDirs\<close>\<close>

lemma normalizeDirs_defaults:
  "normalizeDirs Unset Unset = Inr \<lparr>srcDirs = [''src''], outDirs = [''out'']\<rparr>"
  by (simp add: normalizeDirs_def)

lemma normalizeDirs_empty_src:
  "asDirList ''src'' srcDir = [] \<Longrightarrow>
     normalizeDirs srcDir outDir = Inl (Error ''srcDir must not be an empty array'')"
  by (simp add: normalizeDirs_def)

lemma normalizeDirs_mismatch:
  assumes "1 < length (asDirList ''src'' srcDir)" "1 < length (asDirList ''out'' outDir)"
    and "length (asDirList ''src'' srcDir) \<noteq> length (asDirList ''out'' outDir)"
  shows "isl (normalizeDirs srcDir outDir)"
  using assms by (auto simp: normalizeDirs_def Let_def)

lemma normalizeDirs_broadcast:
  assumes "asDirList ''out'' outDir = [d]" "1 < length (asDirList ''src'' srcDir)"
  shows "normalizeDirs srcDir outDir =
           Inr \<lparr>srcDirs = asDirList ''src'' srcDir,
                outDirs = replicate (length (asDirList ''src'' srcDir)) d\<rparr>"
  using assms by (auto simp: normalizeDirs_def Let_def map_replicate_const)

text \<open>
  C7. Scalars wrap to one-element lists and unset arguments default to \<^verbatim>\<open>"src"\<close> and
  \<^verbatim>\<open>"out"\<close>; an empty source list is an error, and so are two multi-element lists of
  different lengths; a single output directory next to several source directories is
  repeated, so that the returned lists have the same length and position \<open>i\<close> pairs
  \<^verbatim>\<open>srcDirs[i]\<close> with that output directory.
\<close>

theorem normalizeDirs_contract:
  "asDirList fb (Scalar x) = [x] \<and>
   asDirList fb Unset = [fb] \<and>
   normalizeDirs Unset Unset = Inr \<lparr>srcDirs = [''src''], outDirs = [''out'']\<rparr> \<and>
   normalizeDirs (Scalar s) (Scalar out) = Inr \<lparr>srcDirs = [s], outDirs = [out]\<rparr> \<and>
   (asDirList ''src'' srcDir = [] \<longrightarrow>
      normalizeDirs srcDir outDir = Inl (Error ''srcDir must not be an empty array'')) \<and>
   (1 < length (asDirList ''src'' srcDir) \<and> 1 < length (asDirList ''out'' outDir) \<and>
    length (asDirList ''src'' srcDir) \<noteq> length (asDirList ''out'' outDir) \<longrightarrow>
      isl (normalizeDirs srcDir outDir)) \<and>
   (asDirList ''out'' outDir = [d] \<and> 1 < length (asDirList ''src'' srcDir) \<longrightarrow>
      (\<exists>r. normalizeDirs srcDir outDir = Inr r \<and>
           srcDirs r = asDirList ''src'' srcDir \<and>
           length (outDirs r) = length (srcDirs r) \<and>
           (\<forall>i < length (srcDirs r). outDirs r ! i = d)))"
proof -
  have scalars: "normalizeDirs (Scalar s) (Scalar out) = Inr \<lparr>srcDirs = [s], outDirs = [out]\<rparr>"
    by (simp add: normalizeDirs_def)
  have broadcast: "\<exists>r. normalizeDirs srcDir outDir = Inr r \<and>
           srcDirs r = asDirList ''src'' srcDir \<and>
           length (outDirs r) = length (srcDirs r) \<and>
           (\<forall>i < length (srcDirs r). outDirs r ! i = d)"
    if "asDirList ''out'' outDir = [d]" "1 < length (asDirList ''src'' srcDir)"
    using normalizeDirs_broadcast [OF that] by simp
  show ?thesis
    using scalars broadcast normalizeDirs_defaults normalizeDirs_empty_src [of srcDir outDir]
      normalizeDirs_mismatch [of srcDir outDir]
    by simp
qed

theorem normalizeDirs_contract_witness:
  "normalizeDirs (Many []) (Scalar ''out'') = Inl (Error ''srcDir must not be an empty array'') \<and>
   isl (normalizeDirs (Many [''a'', ''b'']) (Many [''x'', ''y'', ''z''])) \<and>
   normalizeDirs (Many [''pkg/vault/src'', ''pkg/pool/src'']) (Scalar ''out'') =
     Inr \<lparr>srcDirs = [''pkg/vault/src'', ''pkg/pool/src''], outDirs = [''out'', ''out'']\<rparr>"
proof -
  have a: "normalizeDirs (Many []) (Scalar ''out'') = Inl (Error ''srcDir must not be an empty array'')"
    using normalizeDirs_contract [of "''src''" "''a''" "''a''" "''b''" "Many []" "Scalar ''out''" "''out''"]
    by simp
  have b: "isl (normalizeDirs (Many [''a'', ''b'']) (Many [''x'', ''y'', ''z'']))"
    using normalizeDirs_contract [of "''src''" "''a''" "''a''" "''b''"
        "Many [''a'', ''b'']" "Many [''x'', ''y'', ''z'']" "''out''"]
    by simp
  have "\<exists>r. normalizeDirs (Many [''pkg/vault/src'', ''pkg/pool/src'']) (Scalar ''out'') = Inr r \<and>
      srcDirs r = [''pkg/vault/src'', ''pkg/pool/src''] \<and> length (outDirs r) = length (srcDirs r) \<and>
      (\<forall>i < length (srcDirs r). outDirs r ! i = ''out'')"
    using normalizeDirs_contract [of "''src''" "''a''" "''a''" "''b''"
        "Many [''pkg/vault/src'', ''pkg/pool/src'']" "Scalar ''out''" "''out''"]
    by simp
  then obtain r where r: "normalizeDirs (Many [''pkg/vault/src'', ''pkg/pool/src'']) (Scalar ''out'') = Inr r"
      "srcDirs r = [''pkg/vault/src'', ''pkg/pool/src'']" "length (outDirs r) = length (srcDirs r)"
      "\<forall>i < length (srcDirs r). outDirs r ! i = ''out''"
    by blast
  have "outDirs r = [''out'', ''out'']"
    using r(2-4) by (auto simp: list_eq_iff_nth_eq less_Suc_eq)
  with r(1,2) have c: "normalizeDirs (Many [''pkg/vault/src'', ''pkg/pool/src'']) (Scalar ''out'') =
     Inr \<lparr>srcDirs = [''pkg/vault/src'', ''pkg/pool/src''], outDirs = [''out'', ''out'']\<rparr>"
    by (cases r) simp
  from a b c show ?thesis by simp
qed

section \<open>Properties of comparators and of the stable sort\<close>


lemma comparator_neg: "consistentComparator cmp \<Longrightarrow> (cmp a b < 0) = (0 < cmp b a)"
  unfolding consistentComparator_def by blast

lemma comparator_trans:
  "consistentComparator cmp \<Longrightarrow> cmp a b \<le> 0 \<Longrightarrow> cmp b c \<le> 0 \<Longrightarrow> cmp a c \<le> 0"
  unfolding consistentComparator_def by blast

lemma comparator_zero: 
  assumes "consistentComparator cmp" shows "(cmp a b = 0) = (cmp b a = 0)"
proof -
  have "(cmp a b < 0) = (0 < cmp b a)" "(cmp b a < 0) = (0 < cmp a b)"
    by (rule comparator_neg [OF assms])+
  then show ?thesis by linarith
qed

lemma comparator_total:
  assumes "consistentComparator cmp" "\<not> cmp a b \<le> 0" shows "cmp b a \<le> 0"
proof -
  have "(cmp b a < 0) = (0 < cmp a b)" by (rule comparator_neg [OF assms(1)])
  with assms(2) show ?thesis by linarith
qed

lemma comparator_trans_less1:
  assumes c: "consistentComparator cmp" and ab: "cmp a b < 0" and bc: "cmp b c \<le> 0"
  shows "cmp a c < 0"
proof (rule ccontr)
  assume "\<not> cmp a c < 0"
  moreover have "cmp a c \<le> 0" using comparator_trans [OF c _ bc] ab by simp
  ultimately have "cmp a c = 0" by simp
  then have "cmp c a \<le> 0" using comparator_zero [OF c, of a c] by simp
  then have "cmp b a \<le> 0" by (rule comparator_trans [OF c bc])
  moreover have "0 < cmp b a" using comparator_neg [OF c, of a b] ab by simp
  ultimately show False by simp
qed

lemma comparator_trans_less2:
  assumes c: "consistentComparator cmp" and ab: "cmp a b \<le> 0" and bc: "cmp b c < 0"
  shows "cmp a c < 0"
proof (rule ccontr)
  assume "\<not> cmp a c < 0"
  moreover have "cmp a c \<le> 0" using comparator_trans [OF c ab] bc by simp
  ultimately have "cmp a c = 0" by simp
  then have "cmp c a \<le> 0" using comparator_zero [OF c, of a c] by simp
  then have "cmp c b \<le> 0" by (rule comparator_trans [OF c _ ab])
  moreover have "0 < cmp c b" using comparator_neg [OF c, of b c] bc by simp
  ultimately show False by simp
qed

lemma comparator_trans_zero:
  assumes c: "consistentComparator cmp" and ab: "cmp a b = 0" and bc: "cmp b c = 0"
  shows "cmp a c = 0"
proof -
  have "cmp a c \<le> 0" using comparator_trans [OF c, of a b c] ab bc by simp
  moreover have "cmp c b = 0" "cmp b a = 0"
    using comparator_zero [OF c, of b c] comparator_zero [OF c, of a b] ab bc by simp_all
  then have "cmp c a \<le> 0" using comparator_trans [OF c, of c b a] by simp
  then have "\<not> cmp a c < 0" using comparator_neg [OF c, of a c] by simp
  ultimately show ?thesis by simp
qed

lemma consistent_lexCombine:
  assumes c1: "consistentComparator c1" and c2: "consistentComparator c2"
  shows "consistentComparator (lexCombine c1 c2)"
  unfolding consistentComparator_def
proof (intro conjI allI impI)
  fix a b
  show "(lexCombine c1 c2 a b < 0) = (0 < lexCombine c1 c2 b a)"
    using comparator_zero [OF c1, of a b] comparator_neg [OF c1, of a b]
      comparator_neg [OF c2, of a b]
    by (simp add: lexCombine_def)
next
  fix a b c
  assume h: "lexCombine c1 c2 a b \<le> 0 \<and> lexCombine c1 c2 b c \<le> 0"
  consider (l1) "c1 a b < 0" "c1 b c \<le> 0" | (l2) "c1 a b = 0" "c1 b c < 0"
    | (eq) "c1 a b = 0" "c1 b c = 0" "c2 a b \<le> 0" "c2 b c \<le> 0"
    using h by (auto simp: lexCombine_def split: if_splits)
  then show "lexCombine c1 c2 a c \<le> 0"
  proof cases
    case l1
    then have "c1 a c < 0" using comparator_trans_less1 [OF c1, of a b c] by simp
    then show ?thesis by (simp add: lexCombine_def)
  next
    case l2
    then have "c1 a c < 0" using comparator_trans_less2 [OF c1, of a b c] by simp
    then show ?thesis by (simp add: lexCombine_def)
  next
    case eq
    then have "c1 a c = 0" using comparator_trans_zero [OF c1, of a b c] by simp
    moreover have "c2 a c \<le> 0" using comparator_trans [OF c2, of a b c] eq by simp
    ultimately show ?thesis by (simp add: lexCombine_def)
  qed
qed

lemma consistent_on_field:
  assumes c: "consistentComparator cmp"
  shows "consistentComparator (\<lambda>a b. cmp (f a) (f b))"
  unfolding consistentComparator_def
proof (intro conjI allI impI)
  fix a b
  show "(cmp (f a) (f b) < 0) = (0 < cmp (f b) (f a))"
    by (rule comparator_neg [OF c])
next
  fix a b d
  assume "cmp (f a) (f b) \<le> 0 \<and> cmp (f b) (f d) \<le> 0"
  then show "cmp (f a) (f d) \<le> 0"
    using comparator_trans [OF c, of "f a" "f b" "f d"] by simp
qed

lemma moduleOrder_lexCombine:
  "moduleOrder lc =
     lexCombine (\<lambda>a b. lc (sourceId a) (sourceId b))
       (lexCombine (\<lambda>a b. lc (contractName a) (contractName b))
          (\<lambda>a b. lc (moduleRelPath a) (moduleRelPath b)))"
  by (intro ext) (simp add: moduleOrder_def lexCombine_def)

lemma consistent_moduleOrder:
  assumes c: "consistentComparator lc"
  shows "consistentComparator (moduleOrder lc)"
proof -
  have 1: "consistentComparator (\<lambda>a b. lc (sourceId a) (sourceId b))"
    by (rule consistent_on_field [OF c])
  have 2: "consistentComparator (\<lambda>a b. lc (contractName a) (contractName b))"
    by (rule consistent_on_field [OF c])
  have 3: "consistentComparator (\<lambda>a b. lc (moduleRelPath a) (moduleRelPath b))"
    by (rule consistent_on_field [OF c])
  show ?thesis
    unfolding moduleOrder_lexCombine
    by (rule consistent_lexCombine [OF 1 consistent_lexCombine [OF 2 3]])
qed

lemma moduleOrder_le_iff: "moduleOrder lc a b \<le> 0 \<longleftrightarrow> tripleNotAfter lc a b"
  by (auto simp: moduleOrder_def tripleNotAfter_def)

lemma set_insortBy: "set (insortBy cmp x xs) = insert x (set xs)"
  by (induction xs) auto

lemma mset_insortBy: "mset (insortBy cmp x xs) = add_mset x (mset xs)"
  by (induction xs) auto

lemma sortBy_Cons: "sortBy cmp (x # xs) = insortBy cmp x (sortBy cmp xs)"
  by (simp add: sortBy_def)

lemma mset_sortBy: "mset (sortBy cmp xs) = mset xs"
  by (induction xs) (simp_all add: sortBy_Cons mset_insortBy, simp add: sortBy_def)

lemma sorted_insortBy:
  assumes c: "consistentComparator cmp"
    and "sorted_wrt (\<lambda>a b. cmp a b \<le> 0) xs"
  shows "sorted_wrt (\<lambda>a b. cmp a b \<le> 0) (insortBy cmp x xs)"
  using assms(2)
proof (induction xs)
  case Nil
  then show ?case by simp
next
  case (Cons y ys)
  show ?case
  proof (cases "cmp x y \<le> 0")
    case True
    have "cmp x z \<le> 0" if "z \<in> set ys" for z
      by (rule comparator_trans [OF c True]) (use Cons.prems that in simp)
    then show ?thesis using True Cons.prems by simp
  next
    case False
    then have "cmp y x \<le> 0" by (rule comparator_total [OF c])
    then show ?thesis using Cons False by (auto simp: set_insortBy)
  qed
qed

lemma sorted_sortBy:
  assumes "consistentComparator cmp"
  shows "sorted_wrt (\<lambda>a b. cmp a b \<le> 0) (sortBy cmp xs)"
  by (induction xs) (simp_all add: sortBy_Cons sorted_insortBy [OF assms], simp add: sortBy_def)

lemma consistent_codeUnitCompare: "consistentComparator codeUnitCompare"
  by (auto simp: consistentComparator_def codeUnitCompare_def)

section \<open>Properties of \<^verbatim>\<open>dedupeAndValidateModules\<close>\<close>


lemma dedupeLoop_append:
  "dedupeLoop (xs @ ys) b w =
     (case dedupeLoop xs b w of Inl e \<Rightarrow> Inl e | Inr (b', w') \<Rightarrow> dedupeLoop ys b' w')"
  by (induction xs arbitrary: b w) (auto split: option.splits)

lemma firstSeen_snoc:
  "firstSeen (p @ [m]) =
     firstSeen p @ (if dedupeKey m \<in> dedupeKey ` set p then [] else [m])"
proof -
  have "concat (map (\<lambda>i. if dedupeKey ((p @ [m]) ! i) \<notin> dedupeKey ` set (take i (p @ [m]))
                          then [(p @ [m]) ! i] else []) [0..<length p])
      = concat (map (\<lambda>i. if dedupeKey (p ! i) \<notin> dedupeKey ` set (take i p)
                          then [p ! i] else []) [0..<length p])"
    by (intro arg_cong [where f = concat] map_cong) (auto simp: nth_append)
  then show ?thesis by (simp add: firstSeen_def)
qed

lemma laterSeen_snoc:
  "laterSeen (p @ [m]) =
     laterSeen p @ (if dedupeKey m \<in> dedupeKey ` set p then [m] else [])"
proof -
  have "concat (map (\<lambda>i. if dedupeKey ((p @ [m]) ! i) \<in> dedupeKey ` set (take i (p @ [m]))
                          then [(p @ [m]) ! i] else []) [0..<length p])
      = concat (map (\<lambda>i. if dedupeKey (p ! i) \<in> dedupeKey ` set (take i p)
                          then [p ! i] else []) [0..<length p])"
    by (intro arg_cong [where f = concat] map_cong) (auto simp: nth_append)
  then show ?thesis by (simp add: laterSeen_def)
qed

lemma firstSeen_Nil: "firstSeen [] = []" and laterSeen_Nil: "laterSeen [] = []"
  by (simp_all add: firstSeen_def laterSeen_def)

lemma set_firstSeen: "set (firstSeen p) \<subseteq> set p"
  by (induction p rule: rev_induct) (auto simp: firstSeen_Nil firstSeen_snoc)

lemma keys_firstSeen: "dedupeKey ` set (firstSeen p) = dedupeKey ` set p"
  by (induction p rule: rev_induct) (auto simp: firstSeen_Nil firstSeen_snoc)

lemma distinct_keys_firstSeen: "distinct (map dedupeKey (firstSeen p))"
  by (induction p rule: rev_induct) (auto simp: firstSeen_Nil firstSeen_snoc keys_firstSeen)

lemma map_of_keyed_None: "map_of (keyed xs) k = None \<longleftrightarrow> k \<notin> dedupeKey ` set xs"
  by (induction xs) (auto simp: keyed_def)

lemma map_of_keyed_Some: "map_of (keyed xs) k = Some e \<Longrightarrow> e \<in> set xs \<and> dedupeKey e = k"
  by (induction xs) (auto simp: keyed_def split: if_splits)

lemma sameKeySameContentD:
  "sameKeySameContent ms \<Longrightarrow> x \<in> set ms \<Longrightarrow> y \<in> set ms \<Longrightarrow>
     dedupeKey x = dedupeKey y \<Longrightarrow> moduleContent x = moduleContent y"
  unfolding sameKeySameContent_def by blast

lemma sameKeySameContent_prefix: "sameKeySameContent (p @ q) \<Longrightarrow> sameKeySameContent p"
  unfolding sameKeySameContent_def by simp

lemma dedupeLoop_consistent:
  "sameKeySameContent ms \<Longrightarrow>
     dedupeLoop ms [] [] = Inr (keyed (firstSeen ms), map dupWarning (laterSeen ms))"
proof (induction ms rule: rev_induct)
  case Nil
  then show ?case by (simp add: firstSeen_Nil laterSeen_Nil keyed_def)
next
  case (snoc m p)
  then have st: "dedupeLoop p [] [] = Inr (keyed (firstSeen p), map dupWarning (laterSeen p))"
    using sameKeySameContent_prefix by blast
  show ?case
  proof (cases "map_of (keyed (firstSeen p)) (dedupeKey m)")
    case None
    then have "dedupeKey m \<notin> dedupeKey ` set p"
      by (simp add: map_of_keyed_None keys_firstSeen)
    then show ?thesis
      using st None by (simp add: dedupeLoop_append firstSeen_snoc laterSeen_snoc keyed_def)
  next
    case (Some e)
    then have e: "e \<in> set p" "dedupeKey e = dedupeKey m"
      using map_of_keyed_Some set_firstSeen by blast+
    have same: "moduleContent e = moduleContent m"
      by (rule sameKeySameContentD [OF snoc.prems _ _ e(2)]) (use e(1) in simp_all)
    have "dedupeKey m \<in> dedupeKey ` set p" using e by (metis imageI)
    then show ?thesis
      using st Some same
      by (simp add: dedupeLoop_append firstSeen_snoc laterSeen_snoc dupWarning_def)
  qed
qed


lemma dedupeLoop_collision:
  "\<not> sameKeySameContent ms \<Longrightarrow>
     \<exists>x \<in> set ms. \<exists>y \<in> set ms. dedupeKey x = dedupeKey y \<and> moduleContent x \<noteq> moduleContent y \<and>
        dedupeLoop ms [] [] = Inl (Error (collisionMessage (dedupeKey y)))"
proof (induction ms rule: rev_induct)
  case Nil
  then show ?case by (simp add: sameKeySameContent_def)
next
  case (snoc m p)
  show ?case
  proof (cases "sameKeySameContent p")
    case False
    then obtain x y where xy: "x \<in> set p" "y \<in> set p" "dedupeKey x = dedupeKey y"
        "moduleContent x \<noteq> moduleContent y"
        "dedupeLoop p [] [] = Inl (Error (collisionMessage (dedupeKey y)))"
      using snoc.IH by blast
    then have "dedupeLoop (p @ [m]) [] [] = Inl (Error (collisionMessage (dedupeKey y)))"
      by (simp add: dedupeLoop_append)
    with xy show ?thesis by auto
  next
    case True
    then have st: "dedupeLoop p [] [] = Inr (keyed (firstSeen p), map dupWarning (laterSeen p))"
      by (rule dedupeLoop_consistent)
    have "\<exists>x \<in> set p. dedupeKey x = dedupeKey m \<and> moduleContent x \<noteq> moduleContent m"
    proof (rule ccontr)
      assume no: "\<not> ?thesis"
      have "sameKeySameContent (p @ [m])"
        unfolding sameKeySameContent_def
      proof (intro ballI impI)
        fix x y assume xy: "x \<in> set (p @ [m])" "y \<in> set (p @ [m])" "dedupeKey x = dedupeKey y"
        consider "x \<in> set p" "y \<in> set p" | "x \<in> set p" "y = m" | "x = m" "y \<in> set p" | "x = m" "y = m"
          using xy(1,2) by auto
        then show "moduleContent x = moduleContent y"
        proof cases
          case 1
          then show ?thesis using True xy(3) sameKeySameContentD by blast
        next
          case 2
          then show ?thesis using no xy(3) by blast
        next
          case 3
          then show ?thesis using no xy(3) by metis
        next
          case 4
          then show ?thesis by simp
        qed
      qed
      with snoc.prems show False by simp
    qed
    then obtain x where x: "x \<in> set p" "dedupeKey x = dedupeKey m"
        "moduleContent x \<noteq> moduleContent m"
      by blast
    have "dedupeKey m \<in> dedupeKey ` set (firstSeen p)"
      unfolding keys_firstSeen using x(1,2) by (metis imageI)
    then have "map_of (keyed (firstSeen p)) (dedupeKey m) \<noteq> None"
      by (simp add: map_of_keyed_None)
    then obtain e where e: "map_of (keyed (firstSeen p)) (dedupeKey m) = Some e" by blast
    then have e': "e \<in> set p" "dedupeKey e = dedupeKey m"
      using map_of_keyed_Some set_firstSeen by blast+
    have "moduleContent e = moduleContent x"
      by (rule sameKeySameContentD [OF True e'(1) x(1)]) (simp add: e'(2) x(2))
    then have "moduleContent e \<noteq> moduleContent m" using x(3) by simp
    then have "dedupeLoop (p @ [m]) [] [] = Inl (Error (collisionMessage (dedupeKey m)))"
      using st e by (simp add: dedupeLoop_append collisionMessage_def)
    with x show ?thesis by auto
  qed
qed

lemma firstSeen_laterSeen_length: "length (firstSeen ms) + length (laterSeen ms) = length ms"
  by (induction ms rule: rev_induct)
    (simp_all add: firstSeen_Nil laterSeen_Nil firstSeen_snoc laterSeen_snoc)

lemma dedupe_sorted:
  assumes "consistentComparator lc"
  shows "sorted_wrt (tripleNotAfter lc) (sortBy (moduleOrder lc) xs)"
proof -
  have "sorted_wrt (\<lambda>a b. moduleOrder lc a b \<le> 0) (sortBy (moduleOrder lc) xs)"
    by (rule sorted_sortBy [OF consistent_moduleOrder [OF assms]])
  then show ?thesis by (simp add: moduleOrder_le_iff)
qed

lemma dedupe_ok:
  assumes "sameKeySameContent ms"
  shows "dedupeAndValidateModules lc ms =
           Inr \<lparr>modules = sortBy (moduleOrder lc) (firstSeen ms),
                warnings = map dupWarning (laterSeen ms)\<rparr>"
  using dedupeLoop_consistent [OF assms]
  by (simp add: dedupeAndValidateModules_def keyed_def comp_def)

lemma dedupe_collision:
  assumes "\<not> sameKeySameContent ms"
  shows "\<exists>x \<in> set ms. \<exists>y \<in> set ms.
           dedupeKey x = dedupeKey y \<and> moduleContent x \<noteq> moduleContent y \<and>
           dedupeAndValidateModules lc ms = Inl (Error (collisionMessage (dedupeKey y)))"
proof -
  obtain x y where "x \<in> set ms" "y \<in> set ms" "dedupeKey x = dedupeKey y"
      "moduleContent x \<noteq> moduleContent y"
      "dedupeLoop ms [] [] = Inl (Error (collisionMessage (dedupeKey y)))"
    using dedupeLoop_collision [OF assms] by blast
  then show ?thesis by (auto simp: dedupeAndValidateModules_def)
qed

text \<open>
  C3. Without a collision (modules with one dedupe key all carry the same content) the
  result holds exactly the modules that are the first with their key, sorted by
  \<open>(sourceId, contractName, moduleRelPath)\<close>, and one ``Duplicate ABI ignored'' warning,
  naming the key, for each later module, which is dropped. When two modules share a key
  and differ in content the call throws, with no result, an error whose message names the
  key of such a pair.
\<close>

theorem dedupeAndValidateModules_contract:
  "(sameKeySameContent ms \<longrightarrow>
      dedupeAndValidateModules lc ms =
        Inr \<lparr>modules = sortBy (moduleOrder lc) (firstSeen ms),
             warnings = map dupWarning (laterSeen ms)\<rparr> \<and>
      mset (sortBy (moduleOrder lc) (firstSeen ms)) = mset (firstSeen ms) \<and>
      length (firstSeen ms) + length (laterSeen ms) = length ms \<and>
      (consistentComparator lc \<longrightarrow>
         sorted_wrt (tripleNotAfter lc) (sortBy (moduleOrder lc) (firstSeen ms)))) \<and>
   (\<not> sameKeySameContent ms \<longrightarrow>
      (\<exists>x \<in> set ms. \<exists>y \<in> set ms.
          dedupeKey x = dedupeKey y \<and> moduleContent x \<noteq> moduleContent y \<and>
          dedupeAndValidateModules lc ms = Inl (Error (collisionMessage (dedupeKey y)))))"
  using dedupe_ok [of ms lc] dedupe_collision [of ms lc] dedupe_sorted [of lc "firstSeen ms"]
    mset_sortBy [of "moduleOrder lc" "firstSeen ms"] firstSeen_laterSeen_length [of ms]
  by blast

theorem dedupeAndValidateModules_contract_witness:
  "dedupeAndValidateModules codeUnitCompare
     [\<lparr>sourceId = ''z'', contractName = ''Alpha'', exportName = ''alphaAbi'',
        moduleRelPath = ''z/alpha.ts'', moduleContent = ''A'', dedupeKey = ''z:Alpha''\<rparr>,
      \<lparr>sourceId = ''a'', contractName = ''Beta'', exportName = ''betaAbi'',
        moduleRelPath = ''a/beta.ts'', moduleContent = ''B'', dedupeKey = ''a:Beta''\<rparr>,
      \<lparr>sourceId = ''z'', contractName = ''Alpha'', exportName = ''alphaAbi'',
        moduleRelPath = ''z/tokens/alpha.ts'', moduleContent = ''A'', dedupeKey = ''z:Alpha''\<rparr>]
   = Inr \<lparr>modules =
            [\<lparr>sourceId = ''a'', contractName = ''Beta'', exportName = ''betaAbi'',
               moduleRelPath = ''a/beta.ts'', moduleContent = ''B'', dedupeKey = ''a:Beta''\<rparr>,
             \<lparr>sourceId = ''z'', contractName = ''Alpha'', exportName = ''alphaAbi'',
               moduleRelPath = ''z/alpha.ts'', moduleContent = ''A'', dedupeKey = ''z:Alpha''\<rparr>],
          warnings = [''Duplicate ABI ignored for z:Alpha'']\<rparr> \<and>
   sorted_wrt (tripleNotAfter codeUnitCompare)
     [\<lparr>sourceId = ''a'', contractName = ''Beta'', exportName = ''betaAbi'',
        moduleRelPath = ''a/beta.ts'', moduleContent = ''B'', dedupeKey = ''a:Beta''\<rparr>,
      \<lparr>sourceId = ''z'', contractName = ''Alpha'', exportName = ''alphaAbi'',
        moduleRelPath = ''z/alpha.ts'', moduleContent = ''A'', dedupeKey = ''z:Alpha''\<rparr>] \<and>
   dedupeAndValidateModules codeUnitCompare
     [\<lparr>sourceId = ''a'', contractName = ''Alpha'', exportName = ''alphaAbi'',
        moduleRelPath = ''a/alpha.ts'', moduleContent = ''A'', dedupeKey = ''a:Alpha''\<rparr>,
      \<lparr>sourceId = ''a'', contractName = ''Alpha'', exportName = ''alphaAbi'',
        moduleRelPath = ''a/alpha.ts'', moduleContent = ''B'', dedupeKey = ''a:Alpha''\<rparr>]
   = Inl (Error (collisionMessage ''a:Alpha''))"
  (is "dedupeAndValidateModules _ ?ms1 = ?r1 \<and> sorted_wrt _ ?sorted \<and>
       dedupeAndValidateModules _ ?ms2 = _")
proof -
  have ok: "sameKeySameContent ?ms1"
    by (simp add: sameKeySameContent_def)
  have first: "firstSeen ?ms1 = [?ms1 ! 0, ?ms1 ! 1]"
    by (simp add: firstSeen_def upt_rec)
  have later: "laterSeen ?ms1 = [?ms1 ! 2]"
    by (simp add: laterSeen_def upt_rec)
  have srt: "sortBy (moduleOrder codeUnitCompare) (firstSeen ?ms1) = ?sorted"
    by (simp add: first sortBy_def moduleOrder_def codeUnitCompare_def)
  have a: "dedupeAndValidateModules codeUnitCompare ?ms1 = ?r1"
    using dedupeAndValidateModules_contract [of ?ms1 codeUnitCompare] ok
    unfolding srt by (simp add: later dupWarning_def)
  have s: "sorted_wrt (tripleNotAfter codeUnitCompare) ?sorted"
    using dedupeAndValidateModules_contract [of ?ms1 codeUnitCompare] ok
      consistent_codeUnitCompare
    unfolding srt by blast
  have bad: "\<not> sameKeySameContent ?ms2"
    by (simp add: sameKeySameContent_def)
  have b: "dedupeAndValidateModules codeUnitCompare ?ms2 = Inl (Error (collisionMessage ''a:Alpha''))"
    using dedupeAndValidateModules_contract [of ?ms2 codeUnitCompare] bad
    by auto
  from a s b show ?thesis by blast
qed

section \<open>Properties of \<^verbatim>\<open>diffManifests\<close>\<close>

lemma set_setOf: "set (setOf xs) = set xs"
  by (simp add: setOf_def)

lemma distinct_setOf: "distinct (setOf xs)"
  by (simp add: setOf_def)

lemma set_Object_keys: "set (Object_keys obj) = fst ` set obj"
  by (auto simp: Object_keys_def Let_def)

lemma sort_filter_difference:
  "sort (filter (\<lambda>s. s \<notin> set (setOf ys)) (setOf xs)) = sorted_list_of_set (set xs - set ys)"
proof -
  have d: "distinct (filter (\<lambda>s. s \<notin> set (setOf ys)) (setOf xs))"
    by (simp add: distinct_setOf)
  have s: "set (filter (\<lambda>s. s \<notin> set (setOf ys)) (setOf xs)) = set xs - set ys"
    by (auto simp: set_setOf)
  show ?thesis
    using sorted_list_of_set_sort_remdups [of "filter (\<lambda>s. s \<notin> set (setOf ys)) (setOf xs)"] d s
    by (simp add: distinct_remdups_id)
qed

lemma changedEntry_eq:
  "changedEntry p c pk key =
     (if key \<in> set pk \<and>
         (set (getSignatures c key) - set (getSignatures p key)) \<union>
         (set (getSignatures p key) - set (getSignatures c key)) \<noteq> {}
      then [(key, \<lparr>itemsAdded = sorted_list_of_set (set (getSignatures c key) - set (getSignatures p key)),
                   itemsRemoved = sorted_list_of_set (set (getSignatures p key) - set (getSignatures c key))\<rparr>)]
      else [])"
proof -
  have e: "sorted_list_of_set A = [] \<longleftrightarrow> A = {}" if "finite A" for A :: "string set"
    using that by (simp add: sorted_list_of_set_eq_Nil_iff)
  show ?thesis
    unfolding changedEntry_def Let_def sort_filter_difference
    by (auto simp: e)
qed

lemma diffManifests_refl:
  "diffManifests m m = \<lparr>added = [], removed = [], changed = []\<rparr>"
  by (simp add: diffManifests_def Let_def changedEntry_eq)

lemma map_of_changed:
  assumes "distinct ks"
  shows "map_of (concat (map (changedEntry p c pk) ks)) key =
           (if key \<in> set ks then map_of (changedEntry p c pk key) key else None)"
  using assms
proof (induction ks)
  case Nil
  then show ?case by simp
next
  case (Cons k ks)
  have other: "map_of (changedEntry p c pk k) key = None" if "key \<noteq> k"
    using that by (simp add: changedEntry_eq)
  show ?case
  proof (cases "key = k")
    case True
    then have "key \<notin> set ks" using Cons.prems by simp
    then show ?thesis using Cons True by (simp add: map_add_def split: option.splits)
  next
    case False
    then show ?thesis using Cons other by (simp add: map_add_def)
  qed
qed

lemma changed_lookup:
  "map_of (changed (diffManifests previous current)) key =
     (if key \<in> set (Object_keys current) \<and> key \<in> set (Object_keys previous) \<and>
         (set (getSignatures current key) - set (getSignatures previous key)) \<union>
         (set (getSignatures previous key) - set (getSignatures current key)) \<noteq> {}
      then Some \<lparr>itemsAdded = sorted_list_of_set
                     (set (getSignatures current key) - set (getSignatures previous key)),
                 itemsRemoved = sorted_list_of_set
                     (set (getSignatures previous key) - set (getSignatures current key))\<rparr>
      else None)"
  by (simp add: diffManifests_def Let_def map_of_changed distinct_setOf set_setOf changedEntry_eq)

lemma added_removed:
  "sorted (added (diffManifests previous current)) \<and>
   sorted (removed (diffManifests previous current)) \<and>
   set (added (diffManifests previous current)) =
     set (Object_keys current) - set (Object_keys previous) \<and>
   set (removed (diffManifests previous current)) =
     set (Object_keys previous) - set (Object_keys current)"
  by (auto simp: diffManifests_def Let_def set_setOf)

text \<open>
  C5. The diff of a manifest with itself is empty. For a key of both manifests, the key
  is in \<^verbatim>\<open>changed\<close> exactly when the symmetric difference of its two signature lists
  is not empty, and its entry then holds the two one-sided differences, each sorted.
  The lists \<^verbatim>\<open>added\<close> and \<^verbatim>\<open>removed\<close> are sorted and hold the keys of one manifest
  that the other lacks.
\<close>

theorem diffManifests_contract:
  "diffManifests m m = \<lparr>added = [], removed = [], changed = []\<rparr> \<and>
   (key \<in> set (Object_keys previous) \<and> key \<in> set (Object_keys current) \<longrightarrow>
      (key \<in> fst ` set (changed (diffManifests previous current)) \<longleftrightarrow>
         (set (getSignatures current key) - set (getSignatures previous key)) \<union>
         (set (getSignatures previous key) - set (getSignatures current key)) \<noteq> {}) \<and>
      (key \<in> fst ` set (changed (diffManifests previous current)) \<longrightarrow>
         map_of (changed (diffManifests previous current)) key =
           Some \<lparr>itemsAdded = sorted_list_of_set
                    (set (getSignatures current key) - set (getSignatures previous key)),
                 itemsRemoved = sorted_list_of_set
                    (set (getSignatures previous key) - set (getSignatures current key))\<rparr>)) \<and>
   sorted (added (diffManifests previous current)) \<and>
   sorted (removed (diffManifests previous current)) \<and>
   set (added (diffManifests previous current)) =
     set (Object_keys current) - set (Object_keys previous) \<and>
   set (removed (diffManifests previous current)) =
     set (Object_keys previous) - set (Object_keys current)"
proof -
  have mem: "key \<in> fst ` set (changed (diffManifests previous current)) \<longleftrightarrow>
      map_of (changed (diffManifests previous current)) key \<noteq> None"
    by (simp add: map_of_eq_None_iff)
  show ?thesis
    unfolding mem changed_lookup
    using diffManifests_refl [of m] added_removed [of previous current]
    by simp
qed

theorem diffManifests_contract_witness:
  "map_of (changed (diffManifests
      [(''x'', [''function f() view'', ''function g() view''])]
      [(''x'', [''function f() view'', ''function h() nonpayable''])])) ''x'' =
     Some \<lparr>itemsAdded = [''function h() nonpayable''], itemsRemoved = [''function g() view'']\<rparr>"
  (is "map_of (changed (diffManifests ?p ?c)) _ = _")
proof -
  have k: "''x'' \<in> set (Object_keys ?p)" "''x'' \<in> set (Object_keys ?c)"
    by (simp_all add: set_Object_keys)
  have a: "set (getSignatures ?c ''x'') - set (getSignatures ?p ''x'') = {''function h() nonpayable''}"
    by (auto simp: getSignatures_def)
  have r: "set (getSignatures ?p ''x'') - set (getSignatures ?c ''x'') = {''function g() view''}"
    by (auto simp: getSignatures_def)
  show ?thesis
    using diffManifests_contract [of "[]" "''x''" ?p ?c] k
    unfolding a r by simp
qed

section \<open>Properties of \<^verbatim>\<open>resolveBaseVersion\<close>\<close>

lemma resolve_latest:
  "resolveBaseVersion gte pkg ''latest'' lookup = Inr (lookup pkg ''latest'')"
  by (simp add: resolveBaseVersion_def)

lemma resolve_both:
  assumes "tag \<noteq> ''latest''" "lookup pkg tag = Some t" "lookup pkg ''latest'' = Some l"
    and "t \<noteq> []" "l \<noteq> []" "gte l t = Inr b"
  shows "resolveBaseVersion gte pkg tag lookup = Inr (Some (if b then l else t))"
  using assms by (simp add: resolveBaseVersion_def truthy_def)

lemma resolve_one_or_none:
  assumes "tag \<noteq> ''latest''"
  shows "lookup pkg tag = Some t \<Longrightarrow> lookup pkg ''latest'' = None \<Longrightarrow>
           resolveBaseVersion gte pkg tag lookup = Inr (Some t)"
    and "lookup pkg tag = None \<Longrightarrow>
           resolveBaseVersion gte pkg tag lookup = Inr (lookup pkg ''latest'')"
  using assms by (simp_all add: resolveBaseVersion_def)

text \<open>
  C4. For the tag \<^verbatim>\<open>"latest"\<close> the result is the looked-up latest version. Otherwise,
  when both lookups give a version (a non-empty string) and \<^verbatim>\<open>semver\<close> compares them,
  the result is the latest version if it is greater or equal and the tag's version if
  not: with a reflexive and total precedence the result is not older than either, and a
  tie goes to the latest version. When one lookup gives \<^verbatim>\<open>null\<close> the result is the other
  version, and \<^verbatim>\<open>null\<close> when both do.
\<close>

theorem resolveBaseVersion_contract:
  "resolveBaseVersion gte pkg ''latest'' lookup = Inr (lookup pkg ''latest'') \<and>
   (tag \<noteq> ''latest'' \<longrightarrow>
      (lookup pkg tag = Some t \<and> lookup pkg ''latest'' = Some l \<and> t \<noteq> [] \<and> l \<noteq> [] \<and>
       gte l t = Inr b \<longrightarrow>
         resolveBaseVersion gte pkg tag lookup = Inr (Some (if b then l else t)) \<and>
         (gte l l = Inr True \<and> gte t t = Inr True \<and> (\<not> b \<longrightarrow> gte t l = Inr True) \<longrightarrow>
            (\<exists>r. resolveBaseVersion gte pkg tag lookup = Inr (Some r) \<and> (r = l \<or> r = t) \<and>
                 gte r l = Inr True \<and> gte r t = Inr True \<and>
                 (gte t l = Inr True \<and> b \<longrightarrow> r = l)))) \<and>
      (lookup pkg tag = Some t \<and> lookup pkg ''latest'' = None \<longrightarrow>
         resolveBaseVersion gte pkg tag lookup = Inr (Some t)) \<and>
      (lookup pkg tag = None \<and> lookup pkg ''latest'' = Some l \<longrightarrow>
         resolveBaseVersion gte pkg tag lookup = Inr (Some l)) \<and>
      (lookup pkg tag = None \<and> lookup pkg ''latest'' = None \<longrightarrow>
         resolveBaseVersion gte pkg tag lookup = Inr None))"
proof -
  have both: "resolveBaseVersion gte pkg tag lookup = Inr (Some (if b then l else t))"
    if "tag \<noteq> ''latest''" "lookup pkg tag = Some t" "lookup pkg ''latest'' = Some l"
      "t \<noteq> []" "l \<noteq> []" "gte l t = Inr b"
    using that by (rule resolve_both)
  have newer: "\<exists>r. resolveBaseVersion gte pkg tag lookup = Inr (Some r) \<and> (r = l \<or> r = t) \<and>
                 gte r l = Inr True \<and> gte r t = Inr True \<and> (gte t l = Inr True \<and> b \<longrightarrow> r = l)"
    if "tag \<noteq> ''latest''" "lookup pkg tag = Some t" "lookup pkg ''latest'' = Some l"
      "t \<noteq> []" "l \<noteq> []" "gte l t = Inr b"
      "gte l l = Inr True" "gte t t = Inr True" "\<not> b \<longrightarrow> gte t l = Inr True"
  proof (cases b)
    case True
    then show ?thesis using both [OF that(1-6)] that(6,7) by simp
  next
    case False
    then show ?thesis using both [OF that(1-6)] that(8,9) by simp
  qed
  show ?thesis
    using resolve_latest [of gte pkg lookup] both newer
      resolve_one_or_none [where tag = tag and lookup = lookup and pkg = pkg and gte = gte]
    by auto
qed

theorem resolveBaseVersion_contract_witness:
  "resolveBaseVersion (\<lambda>a b. Inr (a = b \<or> (a = ''1.1.0-beta.1'' \<and> b = ''1.0.0'')))
     ''@berachain/abis'' ''beta''
     (\<lambda>p tg. if tg = ''latest'' then Some ''1.0.0''
              else if tg = ''beta'' then Some ''1.1.0-beta.1'' else None)
     = Inr (Some ''1.1.0-beta.1'') \<and>
   resolveBaseVersion (\<lambda>a b. Inr (a = b)) ''@berachain/abis'' ''beta''
     (\<lambda>p tg. if tg = ''beta'' then Some ''0.1.0-beta.1'' else None)
     = Inr (Some ''0.1.0-beta.1'') \<and>
   resolveBaseVersion (\<lambda>a b. Inr (a = b)) ''@berachain/abis'' ''beta''
     (\<lambda>p tg. if tg = ''latest'' then Some ''1.0.0'' else None)
     = Inr (Some ''1.0.0'') \<and>
   resolveBaseVersion (\<lambda>a b. Inr (a = b)) ''@berachain/abis'' ''beta'' (\<lambda>p tg. None)
     = Inr None"
proof -
  let ?gte = "\<lambda>a b :: string. (Inr (a = b \<or> (a = ''1.1.0-beta.1'' \<and> b = ''1.0.0'')) :: error + bool)"
  let ?eq = "\<lambda>a b :: string. (Inr (a = b) :: error + bool)"
  let ?both = "\<lambda>(p :: string) tg. if tg = ''latest'' then Some ''1.0.0''
              else if tg = ''beta'' then Some ''1.1.0-beta.1'' else None"
  have "\<exists>r. resolveBaseVersion ?gte ''@berachain/abis'' ''beta'' ?both = Inr (Some r) \<and>
          (r = ''1.0.0'' \<or> r = ''1.1.0-beta.1'') \<and> ?gte r ''1.0.0'' = Inr True"
    using resolveBaseVersion_contract [of ?gte "''@berachain/abis''" ?both "''beta''"
        "''1.1.0-beta.1''" "''1.0.0''" False]
    by simp
  then have a: "resolveBaseVersion ?gte ''@berachain/abis'' ''beta'' ?both = Inr (Some ''1.1.0-beta.1'')"
    using resolveBaseVersion_contract [of ?gte "''@berachain/abis''" ?both "''beta''"
        "''1.1.0-beta.1''" "''1.0.0''" False]
    by simp
  have b: "resolveBaseVersion ?eq ''@berachain/abis'' ''beta''
       (\<lambda>p tg. if tg = ''beta'' then Some ''0.1.0-beta.1'' else None) = Inr (Some ''0.1.0-beta.1'')"
    using resolveBaseVersion_contract [of ?eq "''@berachain/abis''"
        "\<lambda>p tg. if tg = ''beta'' then Some ''0.1.0-beta.1'' else None" "''beta''"
        "''0.1.0-beta.1''" "''1.0.0''" False]
    by simp
  have c: "resolveBaseVersion ?eq ''@berachain/abis'' ''beta''
       (\<lambda>p tg. if tg = ''latest'' then Some ''1.0.0'' else None) = Inr (Some ''1.0.0'')"
    using resolveBaseVersion_contract [of ?eq "''@berachain/abis''"
        "\<lambda>p tg. if tg = ''latest'' then Some ''1.0.0'' else None" "''beta''"
        "''0.1.0-beta.1''" "''1.0.0''" False]
    by simp
  have d: "resolveBaseVersion ?eq ''@berachain/abis'' ''beta'' (\<lambda>p tg. None) = Inr None"
    using resolveBaseVersion_contract [of ?eq "''@berachain/abis''" "\<lambda>p tg. None" "''beta''"
        "''0.1.0-beta.1''" "''1.0.0''" False]
    by simp
  from a b c d show ?thesis by blast
qed

section \<open>Properties of \<^verbatim>\<open>matchesAny\<close>\<close>

lemma escapedChar_not_wildcard:
  "escapedChar c \<Longrightarrow> c \<noteq> CHR ''*'' \<and> c \<noteq> CHR ''?''"
  by (auto simp: escapedChar_def backslash_def)

lemma backslash_escaped: "escapedChar backslash"
  by (simp add: escapedChar_def)

lemma dot_escaped: "escapedChar CHR ''.''"
  by (simp add: escapedChar_def)

lemma replacements_translate:
  "replaceQuestionMarks (replaceStars (escapeSpecials p)) = concat (map translate p)"
proof (induction p)
  case Nil
  then show ?case by (simp add: replaceQuestionMarks_def replaceStars_def escapeSpecials_def)
next
  case (Cons c p)
  have step: "replaceQuestionMarks (replaceStars (escapeSpecials (c # p))) =
      replaceQuestionMarks (replaceStars (if escapedChar c then [backslash, c] else [c])) @
      replaceQuestionMarks (replaceStars (escapeSpecials p))"
    by (simp add: replaceQuestionMarks_def replaceStars_def escapeSpecials_def)
  have one: "replaceQuestionMarks (replaceStars (if escapedChar c then [backslash, c] else [c]))
      = translate c"
    using escapedChar_not_wildcard [of c] escapedChar_not_wildcard [OF backslash_escaped]
    by (simp add: replaceQuestionMarks_def replaceStars_def translate_def)
  show ?case unfolding step one Cons.IH by simp
qed

lemma translated_no_leading_star:
  "concat (map translate p) = [] \<or> hd (concat (map translate p)) \<noteq> CHR ''*''"
proof (cases p)
  case Nil
  then show ?thesis by simp
next
  case (Cons c cs)
  have "hd (translate c @ r) \<noteq> CHR ''*''" for r
    using escapedChar_not_wildcard [OF backslash_escaped]
    by (simp add: translate_def)
  then show ?thesis using Cons by simp
qed

lemma parseAtoms_translate:
  assumes "r = [] \<or> hd r \<noteq> CHR ''*''"
  shows "parseAtoms (translate c @ r) = map_option ((#) (atomOf c)) (parseAtoms r)"
proof -
  consider (esc) "escapedChar c" | (star) "c = CHR ''*''" | (qm) "c = CHR ''?''"
    | (lit) "\<not> syntaxChar c"
    by (auto simp: syntaxChar_def)
  then show ?thesis
  proof cases
    case esc
    then show ?thesis
      using escapedChar_not_wildcard [of c]
      by (simp add: translate_def atomOf_def syntaxChar_def)
  next
    case star
    then have ne: "\<not> escapedChar c" using escapedChar_not_wildcard by blast
    have "CHR ''.'' \<noteq> backslash" by (simp add: backslash_def)
    then show ?thesis using star ne by (simp add: translate_def atomOf_def)
  next
    case qm
    then have ne: "\<not> escapedChar c" using escapedChar_not_wildcard by blast
    have nb: "CHR ''.'' \<noteq> backslash" by (simp add: backslash_def)
    show ?thesis
    proof (cases r)
      case Nil
      then show ?thesis using qm ne by (simp add: translate_def atomOf_def)
    next
      case (Cons d ds)
      then have "d \<noteq> CHR ''*''" using assms by simp
      then show ?thesis using qm ne nb Cons by (simp add: translate_def atomOf_def)
    qed
  next
    case lit
    then have ne: "\<not> escapedChar c" "c \<noteq> CHR ''*''" "c \<noteq> CHR ''?''" "c \<noteq> backslash" "c \<noteq> CHR ''.''"
      using backslash_escaped dot_escaped by (auto simp: syntaxChar_def)
    show ?thesis
      using ne lit by (cases r) (simp_all add: translate_def atomOf_def)
  qed
qed

lemma parseAtoms_translated:
  "parseAtoms (concat (map translate p)) = Some (map atomOf p)"
proof (induction p)
  case Nil
  then show ?case by simp
next
  case (Cons c p)
  show ?case
    using parseAtoms_translate [OF translated_no_leading_star [of p], of c] Cons
    by simp
qed

lemma RegExp_regexSource: "RegExp (regexSource p) = Some (map atomOf p)"
  by (simp add: RegExp_def regexSource_def replacements_translate parseAtoms_translated)

lemma matchesAny_eq:
  "matchesAny filename patterns relPath =
     Inr (\<exists>p \<in> set patterns. test (map atomOf p) (targetOf filename relPath p))"
  by (induction patterns) (auto simp: RegExp_regexSource targetOf_def Let_def)

lemma test_globMatch:
  "\<forall>c \<in> set s. \<not> lineTerminator c \<Longrightarrow> test (map atomOf p) s = globMatch p s"
  by (induction p s rule: globMatch.induct) (auto simp: atomOf_def split: list.splits)

lemma matchesAny_never_throws: "\<exists>b. matchesAny filename patterns relPath = Inr b"
  by (simp add: matchesAny_eq)

lemma matchesAny_no_patterns: "matchesAny filename [] relPath = Inr False"
  by simp

lemma matchesAny_glob_without_line_terminators:
  assumes "\<forall>c \<in> set filename. \<not> lineTerminator c"
    and "\<forall>r. relPath = Some r \<longrightarrow> (\<forall>c \<in> set r. \<not> lineTerminator c)"
  shows "matchesAny filename patterns relPath =
           Inr (\<exists>p \<in> set patterns. globMatch p (targetOf filename relPath p))"
proof -
  have "\<forall>c \<in> set (targetOf filename relPath p). \<not> lineTerminator c" for p
    using assms by (cases relPath) (simp_all add: targetOf_def)
  then show ?thesis by (simp add: matchesAny_eq test_globMatch)
qed

text \<open>
  C6. The claim lets \<^verbatim>\<open>?\<close> match any single character and \<^verbatim>\<open>*\<close> any sequence of
  characters, as the documentation of \<^verbatim>\<open>matchesAny\<close> does. The function compiles both
  to the wildcard \<^verbatim>\<open>.\<close> of a regular expression, which does not match a line
  terminator: a file name with a line feed between \<^verbatim>\<open>a\<close> and \<^verbatim>\<open>b\<close> matches the glob
  \<^verbatim>\<open>a?b.sol\<close> as the claim reads it, and \<^verbatim>\<open>matchesAny\<close> returns \<^verbatim>\<open>false\<close>. (The function
  never throws, returns \<^verbatim>\<open>false\<close> for no patterns, and agrees with the glob reading on
  every name and path without line terminators: the three lemmas above.)
\<close>

theorem matchesAny_misses_line_terminator:
  "globMatch ''a?b.sol'' ''a\<newline>b.sol'' \<and>
   matchesAny ''a\<newline>b.sol'' [''a?b.sol''] None = Inr False"
  by code_simp

section \<open>Properties of the signature formatting and of \<^verbatim>\<open>buildManifest\<close>\<close>



















lemma Object_fromEntries_snoc:
  "Object_fromEntries (es @ [(k, v)]) = AList.update k v (Object_fromEntries es)"
  by (simp add: Object_fromEntries_def)

lemma Object_fromEntries_Nil: "Object_fromEntries [] = []"
  by (simp add: Object_fromEntries_def)

lemma map_of_Object_fromEntries: "map_of (Object_fromEntries es) = map_of (rev es)"
proof (induction es rule: rev_induct)
  case Nil
  then show ?case by (simp add: Object_fromEntries_Nil)
next
  case (snoc e es)
  obtain k v where e: "e = (k, v)" by (cases e)
  show ?case unfolding e Object_fromEntries_snoc
    by (simp add: update_conv snoc.IH)
qed

lemma distinct_Object_fromEntries: "distinct (map fst (Object_fromEntries es))"
proof (induction es rule: rev_induct)
  case Nil
  then show ?case by (simp add: Object_fromEntries_Nil)
next
  case (snoc e es)
  obtain k v where e: "e = (k, v)" by (cases e)
  show ?case unfolding e Object_fromEntries_snoc
    by (simp add: distinct_update snoc.IH)
qed




lemma filter_insortBy:
  assumes "\<And>y. P x \<Longrightarrow> P y \<Longrightarrow> cmp x y \<le> 0"
  shows "filter P (insortBy cmp x ys) = (if P x then x # filter P ys else filter P ys)"
proof (induction ys)
  case Nil
  then show ?case by simp
next
  case (Cons y ys)
  show ?case
  proof (cases "cmp x y \<le> 0")
    case True
    then show ?thesis by simp
  next
    case False
    then have "\<not> (P x \<and> P y)" using assms by blast
    then show ?thesis using False Cons by auto
  qed
qed

lemma filter_sortBy:
  assumes "\<And>x y. P x \<Longrightarrow> P y \<Longrightarrow> cmp x y \<le> 0"
  shows "filter P (sortBy cmp xs) = filter P xs"
proof (induction xs)
  case Nil
  then show ?case by (simp add: sortBy_def)
next
  case (Cons x xs)
  show ?case
    unfolding sortBy_Cons
    using filter_insortBy [of P x cmp "sortBy cmp xs"] assms Cons by simp
qed

lemma map_of_rev_last:
  "map_of (rev es) k =
     (if filter (\<lambda>e. fst e = k) es = [] then None
      else Some (snd (last (filter (\<lambda>e. fst e = k) es))))"
  by (induction es rule: rev_induct) auto

lemma entries_with_key:
  "filter (\<lambda>e. fst e = k) (manifestEntries jp ms) =
     map (\<lambda>m. (k, signaturesOf (the (parseAbiFromModuleContent jp (moduleContent m)))))
       (parsedWithKey jp k ms)"
  by (induction ms) (auto simp: parsedWithKey_def split: option.splits)

lemma one_entry_per_key:
  "distinct (map fst al) \<Longrightarrow> k \<in> fst ` set al \<Longrightarrow> length (filter (\<lambda>e. fst e = k) al) = 1"
proof (induction al)
  case Nil
  then show ?case by simp
next
  case (Cons a al)
  show ?case
  proof (cases "fst a = k")
    case True
    then have "k \<notin> fst ` set al" using Cons.prems(1) by auto
    then have "filter (\<lambda>e. fst e = k) al = []" by (auto simp: filter_empty_conv)
    then show ?thesis using True by simp
  next
    case False
    then show ?thesis using Cons by auto
  qed
qed

lemma buildManifest_lookup:
  assumes "lc k k = 0"
  shows "map_of (buildManifest lc jp ms) k =
     (if parsedWithKey jp k ms = [] then None
      else Some (signaturesOf (the (parseAbiFromModuleContent jp
                   (moduleContent (last (parsedWithKey jp k ms)))))))"
proof -
  have st: "filter (\<lambda>e. fst e = k) (sortBy (\<lambda>a b. lc (fst a) (fst b)) (manifestEntries jp ms))
      = filter (\<lambda>e. fst e = k) (manifestEntries jp ms)"
    by (rule filter_sortBy) (simp add: assms)
  show ?thesis
    unfolding buildManifest_def map_of_Object_fromEntries map_of_rev_last st entries_with_key
    by (simp add: last_map)
qed

lemma same_key_entry:
  assumes "lc k k = 0"
  shows "(parsedWithKey jp k ms \<noteq> [] \<longrightarrow>
        map_of (buildManifest lc jp ms) k =
          Some (signaturesOf (the (parseAbiFromModuleContent jp
                  (moduleContent (last (parsedWithKey jp k ms)))))) \<and>
        length (filter (\<lambda>e. fst e = k) (buildManifest lc jp ms)) = 1) \<and>
     (parsedWithKey jp k ms = [] \<longrightarrow> k \<notin> fst ` set (buildManifest lc jp ms))"
proof -
  have look: "map_of (buildManifest lc jp ms) k =
     (if parsedWithKey jp k ms = [] then None
      else Some (signaturesOf (the (parseAbiFromModuleContent jp
                   (moduleContent (last (parsedWithKey jp k ms)))))))"
    using assms by (rule buildManifest_lookup [of lc k jp ms])
  have "k \<in> fst ` set (buildManifest lc jp ms) \<longleftrightarrow> map_of (buildManifest lc jp ms) k \<noteq> None"
    by (simp add: map_of_eq_None_iff)
  then have mem: "k \<in> fst ` set (buildManifest lc jp ms) \<longleftrightarrow> parsedWithKey jp k ms \<noteq> []"
    unfolding look by simp
  have dist: "distinct (map fst (buildManifest lc jp ms))"
    by (simp add: buildManifest_def distinct_Object_fromEntries)
  show ?thesis
    using look mem one_entry_per_key [OF dist, of k] by simp
qed

lemma parse_who:
  "parseAbiFromModuleContent jsonParseExamples (contentOf errorWhoText) = Some (errorAbi ''who'')"
  by code_simp


lemma parse_receive:
  "parseAbiFromModuleContent jsonParseExamples (contentOf receiveText) = Some receiveAbi"
  by code_simp

lemma parse_plain: "parseAbiFromModuleContent jp ''const foo = 42;'' = None"
  by (simp add: parseAbiFromModuleContent_def)


lemma signatures_receive: "signaturesOf receiveAbi = [''receive()'']"
  by (simp add: signaturesOf_def receiveAbi_def formatAbiItemSignature_def)

lemma stripTs_token: "stripTs ''token.ts'' = ''token''"
  by (simp add: stripTs_def)





text \<open>
  C10 as stated fails: of two modules with one manifest key the last one may not parse,
  and then the entry holds the signatures of the earlier module; when neither parses the
  key has no entry at all.
\<close>

theorem buildManifest_last_wins_counterexample:
  "buildManifest codeUnitCompare jsonParseExamples
     [moduleAt ''token.ts'' (contentOf errorWhoText), moduleAt ''token.ts'' ''const foo = 42;'']
     = [(''token'', [''error Bad(address)''])] \<and>
   buildManifest codeUnitCompare jsonParseExamples
     [moduleAt ''token.ts'' ''const foo = 41;'', moduleAt ''token.ts'' ''const foo = 42;''] = []"
  by code_simp

text \<open>
  C10, amended. Among the modules with one manifest key whose content parses, the last
  one in the input gives the signatures of the key's entry, and the key has exactly one
  entry; when none of them parses the key is not in the manifest. (A string compares
  equal to itself under \<^verbatim>\<open>localeCompare\<close>.)
\<close>

theorem buildManifest_same_key:
  "lc k k = 0 \<longrightarrow>
     (parsedWithKey jsonParse k ms \<noteq> [] \<longrightarrow>
        map_of (buildManifest lc jsonParse ms) k =
          Some (signaturesOf (the (parseAbiFromModuleContent jsonParse
                  (moduleContent (last (parsedWithKey jsonParse k ms)))))) \<and>
        length (filter (\<lambda>e. fst e = k) (buildManifest lc jsonParse ms)) = 1) \<and>
     (parsedWithKey jsonParse k ms = [] \<longrightarrow> k \<notin> fst ` set (buildManifest lc jsonParse ms))"
  using same_key_entry [of lc k jsonParse ms] by blast

theorem buildManifest_same_key_witness:
  "map_of (buildManifest codeUnitCompare jsonParseExamples
     [moduleAt ''token.ts'' (contentOf errorWhoText), moduleAt ''token.ts'' (contentOf receiveText)])
     ''token'' = Some [''receive()'']"
proof -
  have c: "codeUnitCompare ''token'' ''token'' = 0"
    by (simp add: codeUnitCompare_def)
  have p: "parsedWithKey jsonParseExamples ''token''
       [moduleAt ''token.ts'' (contentOf errorWhoText), moduleAt ''token.ts'' (contentOf receiveText)]
     = [moduleAt ''token.ts'' (contentOf errorWhoText), moduleAt ''token.ts'' (contentOf receiveText)]"
    by (simp add: parsedWithKey_def moduleAt_def stripTs_token parse_who parse_receive)
  show ?thesis
    using buildManifest_same_key [of codeUnitCompare "''token''" jsonParseExamples
        "[moduleAt ''token.ts'' (contentOf errorWhoText), moduleAt ''token.ts'' (contentOf receiveText)]"] c
    unfolding p
    by (simp add: moduleAt_def parse_receive signatures_receive)
qed

section \<open>Properties of \<^verbatim>\<open>artifactToModule\<close>\<close>

lemma moduleContent_artifactToModule:
  "moduleContent (artifactToModule posixJoin artifact mainSource) =
     ''export const '' @ toCamelCase (artContractName artifact) @ ''Abi = ''
       @ JSON_stringify_2 (JArray (artAbi artifact)) @ '' as const;''
       @ [CHR 0x0A, CHR 0x0A] @ ''export default '' @ toCamelCase (artContractName artifact)
       @ ''Abi;'' @ [CHR 0x0A]"
  by (simp add: artifactToModule_def Let_def)

lemma dedupeKey_artifactToModule:
  "dedupeKey (artifactToModule posixJoin artifact mainSource) =
     artSourceId artifact @ '':'' @ artContractName artifact"
  by (simp add: artifactToModule_def Let_def)

lemma receive_type_first:
  "JSON_stringify_2 (JArray [JObject [(''type'', JString ''receive''),
       (''stateMutability'', JString ''payable'')]]) =
   [CHR ''['', CHR 0x0A] @ ''  {'' @ [CHR 0x0A]
     @ ''    '' @ [CHR 0x22] @ ''type'' @ [CHR 0x22] @ '': '' @ [CHR 0x22] @ ''receive'' @ [CHR 0x22, CHR '','', CHR 0x0A]
     @ ''    '' @ [CHR 0x22] @ ''stateMutability'' @ [CHR 0x22] @ '': '' @ [CHR 0x22] @ ''payable'' @ [CHR 0x22, CHR 0x0A]
     @ ''  }'' @ [CHR 0x0A] @ '']''"
  by code_simp

lemma receive_type_last:
  "JSON_stringify_2 (JArray [JObject [(''stateMutability'', JString ''payable''),
       (''type'', JString ''receive'')]]) =
   [CHR ''['', CHR 0x0A] @ ''  {'' @ [CHR 0x0A]
     @ ''    '' @ [CHR 0x22] @ ''stateMutability'' @ [CHR 0x22] @ '': '' @ [CHR 0x22] @ ''payable'' @ [CHR 0x22, CHR '','', CHR 0x0A]
     @ ''    '' @ [CHR 0x22] @ ''type'' @ [CHR 0x22] @ '': '' @ [CHR 0x22] @ ''receive'' @ [CHR 0x22, CHR 0x0A]
     @ ''  }'' @ [CHR 0x0A] @ '']''"
  by code_simp

lemma stableStringify_example:
  "stableStringify codeUnitCompare
     (JArray [JObject [(''type'', JString ''receive''), (''stateMutability'', JString ''payable'')]]) =
   stableStringify codeUnitCompare
     (JArray [JObject [(''stateMutability'', JString ''payable''), (''type'', JString ''receive'')]])"
  by code_simp

text \<open>
  C2. \<^verbatim>\<open>artifactToModule\<close> serializes the array with \<^verbatim>\<open>JSON.stringify(abi, null, 2)\<close>,
  which writes the keys of an object in the order the object has them. Two artifacts
  whose arrays are equal up to the order of the keys get different contents, and
  \<^verbatim>\<open>dedupeAndValidateModules\<close> takes the pair for a collision. (\<^verbatim>\<open>stableStringify\<close>,
  which sorts the keys, gives one text for both arrays: lemma \<open>stableStringify_example\<close>;
  the module functions do not call it.)
\<close>

theorem artifactToModule_keeps_key_order:
  "sameUpToKeyOrder
     (JArray [JObject [(''type'', JString ''receive''), (''stateMutability'', JString ''payable'')]])
     (JArray [JObject [(''stateMutability'', JString ''payable''), (''type'', JString ''receive'')]]) \<and>
   moduleContent (artifactToModule posixJoin
     \<lparr>artSourceId = ''contracts'', artFilePath = ''/repo/out/Token.sol/Token.json'',
      artContractName = ''Token'', artRelDir = ''.'',
      artAbi = [JObject [(''type'', JString ''receive''), (''stateMutability'', JString ''payable'')]]\<rparr>
     mainSource) \<noteq>
   moduleContent (artifactToModule posixJoin
     \<lparr>artSourceId = ''contracts'', artFilePath = ''/repo/out/Token.sol/Token.json'',
      artContractName = ''Token'', artRelDir = ''.'',
      artAbi = [JObject [(''stateMutability'', JString ''payable''), (''type'', JString ''receive'')]]\<rparr>
     mainSource) \<and>
   dedupeAndValidateModules lc
     [artifactToModule posixJoin
        \<lparr>artSourceId = ''contracts'', artFilePath = ''/repo/out/Token.sol/Token.json'',
         artContractName = ''Token'', artRelDir = ''.'',
         artAbi = [JObject [(''type'', JString ''receive''), (''stateMutability'', JString ''payable'')]]\<rparr>
        mainSource,
      artifactToModule posixJoin
        \<lparr>artSourceId = ''contracts'', artFilePath = ''/repo/out/Token.sol/Token.json'',
         artContractName = ''Token'', artRelDir = ''.'',
         artAbi = [JObject [(''stateMutability'', JString ''payable''), (''type'', JString ''receive'')]]\<rparr>
        mainSource]
     = Inl (Error (collisionMessage ''contracts:Token''))"
  (is "?same \<and> ?c1 \<noteq> ?c2 \<and> ?dedupe")
proof -
  have same: ?same by code_simp
  have ne: "?c1 \<noteq> ?c2"
    by (simp add: moduleContent_artifactToModule receive_type_first receive_type_last)
  have ?dedupe
    using ne
    by (simp add: dedupeAndValidateModules_def dedupeKey_artifactToModule collisionMessage_def)
  with same ne show ?thesis by blast
qed

end
